theory Spec2Isabelle
  imports
    Main
    "HOL-Library.Word"
    "HOL-Library.Signed_Division"
    "HOL-Library.Multiset"
    "HOL-Library.AList"
    "HOL-Library.Char_ord"
    "HOL-Library.List_Lexorder"
begin

section \<open>Data model of main.go\<close>

text \<open>
  Go's \<open>int\<close> on the 64-bit Linux target of the Dockerfile is a 64-bit two's complement
  integer: \<open>+\<close> wraps around, \<open>/\<close> truncates towards zero and \<open>>\<close> compares signed values.
\<close>

type_synonym goint = "64 word"

definition goDiv :: "goint \<Rightarrow> goint \<Rightarrow> goint" where
  "goDiv a b = word_of_int (sint a sdiv sint b)"

text \<open>
  \<open>MSFPlayerCharacter\<close>: of the thirteen fields of the struct the program reads only
  \<open>ID\<close>, \<open>Player\<close> and \<open>Power\<close>; the others are left out.
\<close>

record MSFPlayerCharacter =
  ID :: string
  Player :: string
  Power :: goint

record MSFTeam =
  Name :: string
  Label :: string
  Characters :: "string list"

text \<open>
  A cell of the sheet is an \<open>interface{}\<close>: \<open>nil\<close> as left by \<open>make\<close>, a string or an int.
\<close>

datatype cell = CNil | CStr string | CInt goint

type_synonym row = "cell list"

datatype error = IndexOutOfRange | DivideByZero

text \<open>
  Go maps are association lists with distinct keys; \<open>range\<close> visits the entries in the
  order of the list. Go leaves the order of a \<open>range\<close> over a map open; the table does
  not depend on it, since each pass touches only the entry of its own key and the keys
  are sorted before the rows are filled (\<open>playerTeamsMap_lookup\<close>, \<open>playerKeys_eq\<close>). A
  missing key reads as the zero value, the nil slice.
\<close>

type_synonym 'v gomap = "(string \<times> 'v) list"

definition lookupOrNil :: "'v list gomap \<Rightarrow> string \<Rightarrow> 'v list" where
  "lookupOrNil m k = (case map_of m k of None \<Rightarrow> [] | Some v \<Rightarrow> v)"

section \<open>strings.ToLower and strconv.Itoa\<close>

text \<open>
  \<open>strings.ToLower\<close> scans the bytes of its argument. When all of them are below
  \<open>0x80\<close> (the local \<open>isASCII\<close>) it maps the bytes \<open>A\<close> to \<open>Z\<close> to \<open>a\<close> to \<open>z\<close> and leaves every
  other byte as it is; otherwise it returns \<open>Map(unicode.ToLower, s)\<close>. The Unicode
  mapping belongs to the Go standard library and is the parameter \<open>uni\<close> of everything
  that lower-cases an \<open>ID\<close>: every result below holds whatever that mapping does.
\<close>

definition lowerByte :: "char \<Rightarrow> char" where
  "lowerByte c =
     (if CHR ''A'' \<le> c \<and> c \<le> CHR ''Z'' then char_of (of_char c + (32::nat)) else c)"

definition isASCII :: "string \<Rightarrow> bool" where
  "isASCII s = list_all (\<lambda>c. of_char c < (128::nat)) s"

definition ToLower :: "(string \<Rightarrow> string) \<Rightarrow> string \<Rightarrow> string" where
  "ToLower uni s = (if isASCII s then map lowerByte s else uni s)"

fun digits :: "nat \<Rightarrow> string" where
  "digits n =
     (if n < 10 then [char_of (48 + n)]
      else digits (n div 10) @ [char_of (48 + n mod 10)])"

definition Itoa :: "int \<Rightarrow> string" where
  "Itoa i = (if i < 0 then CHR ''-'' # digits (nat (- i)) else digits (nat i))"

section \<open>The comparator \<open>ByAverageTotalTeamPower\<close>\<close>

text \<open>
  The type assertion \<open>a[i][len(a[i])-1].(int)\<close>: the trailing cell as an int, or the
  failure of the assertion. On an empty row Go panics with an index out of range; the
  report generator checks for empty rows before it sorts (see below), so the comparator
  is only ever applied to rows with a trailing cell.
\<close>

definition trailingInt :: "row \<Rightarrow> goint option" where
  "trailingInt r = (case last r of CInt n \<Rightarrow> Some n | _ \<Rightarrow> None)"

definition Less :: "row list \<Rightarrow> nat \<Rightarrow> nat \<Rightarrow> bool" where
  "Less a i j =
     (case trailingInt (a ! i) of
        None \<Rightarrow> True
      | Some averageTotalTeamPowerA \<Rightarrow>
          (case trailingInt (a ! j) of
             None \<Rightarrow> False
           | Some averageTotalTeamPowerB \<Rightarrow> averageTotalTeamPowerB <s averageTotalTeamPowerA))"

definition Swap :: "row list \<Rightarrow> nat \<Rightarrow> nat \<Rightarrow> row list" where
  "Swap a i j = a[i := a ! j, j := a ! i]"

section \<open>sort.Sort\<close>

text \<open>
  \<open>sort.Sort\<close> belongs to the Go standard library, whose version the Dockerfile leaves
  open (the program is built with \<open>golang:latest\<close>), so the report generator takes it
  as a parameter \<open>srt\<close>. Its documented contract: it only calls \<open>Less\<close> and \<open>Swap\<close>,
  so the result is a rearrangement of the slice, and no element is \<open>Less\<close> than one
  placed before it. The sort is not guaranteed to be stable.
\<close>

definition sortedByLess :: "row list \<Rightarrow> bool" where
  "sortedByLess a = list_all (\<lambda>j. list_all (\<lambda>i. \<not> Less a j i) [0..<j]) [0..<length a]"

definition sortContract :: "row list \<Rightarrow> row list \<Rightarrow> bool" where
  "sortContract before after = (mset after = mset before \<and> sortedByLess after)"

text \<open>
  The two generations of \<open>sort.Sort\<close>. Both finish small slices with \<open>insertionSort\<close>,
  which is built from \<open>Less\<close> and \<open>Swap\<close> alone.
\<close>

function insertDown :: "row list \<Rightarrow> nat \<Rightarrow> nat \<Rightarrow> row list" where
  "insertDown data a j =
     (if j > a \<and> Less data j (j - 1) then insertDown (Swap data j (j - 1)) a (j - 1)
      else data)"
  by pat_completeness auto
termination
  by (relation "measure (\<lambda>(data, a, j). j)") auto

definition insertionSort :: "row list \<Rightarrow> nat \<Rightarrow> nat \<Rightarrow> row list" where
  "insertionSort data a b = fold (\<lambda>i d. insertDown d a i) [a + 1..<b] data"

definition shellPass :: "row list \<Rightarrow> nat \<Rightarrow> nat \<Rightarrow> row list" where
  "shellPass data a b =
     fold (\<lambda>i d. if Less d i (i - 6) then Swap d i (i - 6) else d) [a + 6..<b] data"

text \<open>
  Up to Go 1.18 \<open>Sort\<close> calls \<open>quickSort(data, 0, n, maxDepth(n))\<close>: above twelve elements
  it partitions (the parameter \<open>large\<close>, not modelled); otherwise, with more than one
  element, it makes one Shell sort pass with gap 6 and finishes with \<open>insertionSort\<close>.
\<close>

definition SortUpTo118 :: "(row list \<Rightarrow> row list) \<Rightarrow> row list \<Rightarrow> row list" where
  "SortUpTo118 large data =
     (let n = length data
      in if n > 12 then large data
         else if n > 1 then insertionSort (shellPass data 0 n) 0 n
         else data)"

text \<open>
  From Go 1.19 \<open>Sort\<close> returns at once for \<open>n \<le> 1\<close> and otherwise calls
  \<open>pdqsort(data, 0, n, bits.Len(uint(n)))\<close>, which runs \<open>insertionSort\<close> on a slice of at
  most twelve elements (\<open>maxInsertion\<close>) and partitions a longer one (the parameter
  \<open>large\<close>).
\<close>

definition SortFrom119 :: "(row list \<Rightarrow> row list) \<Rightarrow> row list \<Rightarrow> row list" where
  "SortFrom119 large data =
     (let n = length data
      in if n \<le> 1 then data
         else if n \<le> 12 then insertionSort data 0 n
         else large data)"

subsection \<open>The first pass of \<open>pdqsort\<close> on a longer slice\<close>

text \<open>
  \<open>choosePivot\<close> takes the median of three elements (of three medians of adjacent
  elements from 50 elements on) by index, without moving anything, and counts the
  exchanges of indices: none hints at an increasing slice, twelve at a decreasing one.
\<close>

datatype sortedHint = unknownHint | increasingHint | decreasingHint

definition order2 :: "row list \<Rightarrow> nat \<Rightarrow> nat \<Rightarrow> nat \<Rightarrow> nat \<times> nat \<times> nat" where
  "order2 data a b swaps = (if Less data b a then (b, a, swaps + 1) else (a, b, swaps))"

definition median :: "row list \<Rightarrow> nat \<Rightarrow> nat \<Rightarrow> nat \<Rightarrow> nat \<Rightarrow> nat \<times> nat" where
  "median data a b c swaps =
     (case order2 data a b swaps of (a, b, swaps) \<Rightarrow>
      case order2 data b c swaps of (b, c, swaps) \<Rightarrow>
      case order2 data a b swaps of (a, b, swaps) \<Rightarrow> (b, swaps))"

definition medianAdjacent :: "row list \<Rightarrow> nat \<Rightarrow> nat \<Rightarrow> nat \<times> nat" where
  "medianAdjacent data a swaps = median data (a - 1) a (a + 1) swaps"

definition choosePivot :: "row list \<Rightarrow> nat \<Rightarrow> nat \<Rightarrow> nat \<times> sortedHint" where
  "choosePivot data a b =
     (let l = b - a;
          i = a + l div 4 * 1;
          j = a + l div 4 * 2;
          k = a + l div 4 * 3;
          (j, swaps) =
            (if l \<ge> 8 then
               (if l \<ge> 50 then
                  (case medianAdjacent data i 0 of (i, swaps) \<Rightarrow>
                   case medianAdjacent data j swaps of (j, swaps) \<Rightarrow>
                   case medianAdjacent data k swaps of (k, swaps) \<Rightarrow>
                     median data i j k swaps)
                else median data i j k 0)
             else (j, 0))
      in if swaps = 0 then (j, increasingHint)
         else if swaps = 4 * 3 then (j, decreasingHint)
         else (j, unknownHint))"

text \<open>
  \<open>partialInsertionSort\<close> on a slice of fewer than 50 elements (\<open>shortestShifting\<close>)
  moves nothing: it walks up while no element is \<open>Less\<close> than the one before it and
  reports whether it reached the end.
\<close>

function firstDescent :: "row list \<Rightarrow> nat \<Rightarrow> nat \<Rightarrow> nat" where
  "firstDescent data i b =
     (if i < b \<and> \<not> Less data i (i - 1) then firstDescent data (i + 1) b else i)"
  by pat_completeness auto
termination
  by (relation "measure (\<lambda>(data, i, b). b - i)") auto

definition partialInsertionSort :: "row list \<Rightarrow> nat \<Rightarrow> nat \<Rightarrow> bool" where
  "partialInsertionSort data a b = (firstDescent data (a + 1) b = b)"

text \<open>
  \<open>partition\<close>: the pivot goes to position \<open>a\<close>; \<open>i\<close> runs up over the elements \<open>Less\<close>
  than the pivot, \<open>j\<close> runs down over those that are not, the two elements they stop at
  are exchanged, and at the end the pivot is exchanged with the element at \<open>j\<close>. The
  result is the slice, the place of the pivot and whether nothing had to be exchanged.
  The indices \<open>i\<close> and \<open>j\<close> are Go ints, \<open>j\<close> may pass below \<open>i\<close>.
\<close>

function scanUp :: "row list \<Rightarrow> nat \<Rightarrow> int \<Rightarrow> int \<Rightarrow> int" where
  "scanUp data a i j =
     (if i \<le> j \<and> Less data (nat i) a then scanUp data a (i + 1) j else i)"
  by pat_completeness auto
termination
  by (relation "measure (\<lambda>(data, a, i, j). nat (j + 1 - i))") auto

function scanDown :: "row list \<Rightarrow> nat \<Rightarrow> int \<Rightarrow> int \<Rightarrow> int" where
  "scanDown data a i j =
     (if i \<le> j \<and> \<not> Less data (nat j) a then scanDown data a i (j - 1) else j)"
  by pat_completeness auto
termination
  by (relation "measure (\<lambda>(data, a, i, j). nat (j + 1 - i))") auto

function partitionLoop :: "row list \<Rightarrow> nat \<Rightarrow> int \<Rightarrow> int \<Rightarrow> row list \<times> int" where
  "partitionLoop data a i j =
     (let i' = scanUp data a i j;
          j' = scanDown data a i' j
      in if i' > j' then (data, j')
         else partitionLoop (Swap data (nat i') (nat j')) a (i' + 1) (j' - 1))"
  by pat_completeness auto
termination
proof (relation "measure (\<lambda>(data, a, i, j). nat (j + 1 - i))")
  show "wf (measure (\<lambda>(data, a, i, j). nat (j + 1 - i)))"
    by simp
next
  fix data :: "row list" and a :: nat and i j x xa :: int
  assume x: "x = scanUp data a i j" and xa: "xa = scanDown data a x j" and le: "\<not> xa < x"
  have up: "i \<le> scanUp data a i j"
  proof (induction data a i j rule: scanUp.induct)
    case (1 data a i j)
    show ?case
    proof (cases "i \<le> j \<and> Less data (nat i) a")
      case True
      with 1 have "i + 1 \<le> scanUp data a (i + 1) j" by blast
      with True show ?thesis by (subst scanUp.simps) (simp del: scanUp.simps)
    next
      case False
      then show ?thesis by (subst scanUp.simps) (auto simp del: scanUp.simps)
    qed
  qed
  have down: "scanDown data a x j \<le> j"
  proof (induction data a x j rule: scanDown.induct)
    case (1 data a i j)
    show ?case
    proof (cases "i \<le> j \<and> \<not> Less data (nat j) a")
      case True
      with 1 have "scanDown data a i (j - 1) \<le> j - 1" by blast
      with True show ?thesis by (subst scanDown.simps) (simp del: scanDown.simps)
    next
      case False
      then show ?thesis by (subst scanDown.simps) (auto simp del: scanDown.simps)
    qed
  qed
  from up x have "i \<le> x" by (simp del: scanUp.simps)
  moreover from down xa have "xa \<le> j" by (simp del: scanDown.simps)
  ultimately show "((Swap data (nat x) (nat xa), a, x + 1, xa - 1), data, a, i, j)
          \<in> measure (\<lambda>(data, a, i, j). nat (j + 1 - i))"
    using le by simp
qed

definition partitionRows :: "row list \<Rightarrow> nat \<Rightarrow> nat \<Rightarrow> nat \<Rightarrow> row list \<times> nat \<times> bool" where
  "partitionRows data a b pivot =
     (let data = Swap data a pivot;
          i = scanUp data a (int a + 1) (int b - 1);
          j = scanDown data a i (int b - 1)
      in if i > j then (Swap data (nat j) a, nat j, True)
         else (case partitionLoop (Swap data (nat i) (nat j)) a (i + 1) (j - 1) of
                 (data, j) \<Rightarrow> (Swap data (nat j) a, nat j, False)))"

text \<open>
  \<open>pdqsort(data, 0, n, limit)\<close> as far as a table of 13 to 49 rows takes it when both
  sides of the first partition have at most twelve elements: the pivot is chosen; a
  slice that looks increasing and has no descent is returned as it is; otherwise the
  slice is partitioned, the shorter side is sorted by the recursive call and the longer
  one by the next turn of the loop, both by \<open>insertionSort\<close>. Everything else that
  \<open>pdqsort\<close> can do (50 elements or more, a slice that looks decreasing and is reversed,
  a side of more than twelve elements) is the parameter \<open>deeper\<close>, applied to the slice
  as it was handed in. \<open>limit\<close> is positive and both flags \<open>wasBalanced\<close> and
  \<open>wasPartitioned\<close> are true on the first pass, and \<open>partitionEqual\<close> needs \<open>a > 0\<close>.
\<close>

definition pdqsort :: "(row list \<Rightarrow> row list) \<Rightarrow> row list \<Rightarrow> row list" where
  "pdqsort deeper data =
     (let n = length data
      in if n \<le> 12 then insertionSort data 0 n
         else if 50 \<le> n then deeper data
         else (case choosePivot data 0 n of
           (pivot, hint) \<Rightarrow>
             if hint = decreasingHint then deeper data
             else if hint = increasingHint \<and> partialInsertionSort data 0 n then data
             else (case partitionRows data 0 n pivot of
               (data', mid, alreadyPartitioned) \<Rightarrow>
                 let leftLen = mid - 0; rightLen = n - mid
                 in if 12 < leftLen \<or> 12 < rightLen - 1 then deeper data
                    else if leftLen < rightLen
                    then insertionSort (insertionSort data' 0 mid) (mid + 1) n
                    else insertionSort (insertionSort data' (mid + 1) n) 0 mid)))"

section \<open>Grouping the records by player (\<open>main\<close>)\<close>

definition addCharacter ::
  "MSFPlayerCharacter \<Rightarrow> MSFPlayerCharacter list gomap \<Rightarrow> MSFPlayerCharacter list gomap" where
  "addCharacter character m =
     (case map_of m (Player character) of
        Some cs \<Rightarrow> AList.update (Player character) (cs @ [character]) m
      | None \<Rightarrow> AList.update (Player character) [character] m)"

definition playerCharactersMap ::
  "MSFPlayerCharacter list \<Rightarrow> MSFPlayerCharacter list gomap" where
  "playerCharactersMap msfPlayerCharacters = fold addCharacter msfPlayerCharacters []"

section \<open>\<open>generateAverageTeamPowerByPlayerReport\<close>\<close>

subsection \<open>Team totals per player\<close>

definition teamTotalPower :: "(string \<Rightarrow> string) \<Rightarrow> MSFTeam \<Rightarrow> MSFPlayerCharacter list \<Rightarrow> goint" where
  "teamTotalPower uni team characters =
     fold (\<lambda>teamCharacter total.
             fold (\<lambda>character t.
                     if ToLower uni (ID character) = teamCharacter then t + Power character else t)
                  characters total)
          (Characters team) 0"

definition addPlayerTeam ::
  "(string \<Rightarrow> string) \<Rightarrow> MSFTeam \<Rightarrow> string \<times> MSFPlayerCharacter list \<Rightarrow> goint list gomap \<Rightarrow> goint list gomap" where
  "addPlayerTeam uni team entry m =
     (let player = fst entry;
          characters = snd entry;
          m1 = (if map_of m player = None then AList.update player [] m else m)
      in AList.update player (lookupOrNil m1 player @ [teamTotalPower uni team characters]) m1)"

definition playerTeamsMap ::
  "(string \<Rightarrow> string) \<Rightarrow> MSFTeam list \<Rightarrow> MSFPlayerCharacter list gomap \<Rightarrow> goint list gomap" where
  "playerTeamsMap uni teams pcm =
     fold (\<lambda>team m. fold (addPlayerTeam uni team) pcm m) teams []"

subsection \<open>The table before it is sorted\<close>

definition headerRow :: "MSFTeam list \<Rightarrow> row" where
  "headerRow teams =
     fold (\<lambda>team h. h @ [CStr (Label team)]) teams [CStr ''Player''] @ [CStr ''Average'']"

definition setCell :: "row list \<Rightarrow> nat \<Rightarrow> nat \<Rightarrow> cell \<Rightarrow> error + row list" where
  "setCell cv r c v =
     (if r < length cv \<and> c < length (cv ! r) then Inr (cv[r := (cv ! r)[c := v]])
      else Inl IndexOutOfRange)"

text \<open>
  The value one pass of the inner loop stores for \<open>player\<close> in column \<open>columnIndex\<close>,
  \<open>ncols\<close> being \<open>len(cellValues[0])\<close>: the three branches in the order of the source.
\<close>

definition cellValue :: "goint list gomap \<Rightarrow> nat \<Rightarrow> nat \<Rightarrow> string \<Rightarrow> error + cell" where
  "cellValue m ncols columnIndex player =
     (if columnIndex = 0 then Inr (CStr player)
      else if columnIndex = ncols - 1 then
        (let totals = lookupOrNil m player;
             totalPower = fold (\<lambda>teamTotalPower total. total + teamTotalPower) totals 0
         in if length totals = 0 then Inl DivideByZero
            else Inr (CInt (goDiv totalPower (of_nat (length totals)))))
      else
        (let totals = lookupOrNil m player
         in if columnIndex - 1 < length totals then Inr (CInt (totals ! (columnIndex - 1)))
            else Inl IndexOutOfRange))"

fun fillPlayers ::
  "goint list gomap \<Rightarrow> nat \<Rightarrow> nat \<Rightarrow> nat \<Rightarrow> string list \<Rightarrow> row list \<Rightarrow> error + row list" where
  "fillPlayers m ncols columnIndex playerIndex [] cv = Inr cv"
| "fillPlayers m ncols columnIndex playerIndex (player # rest) cv =
     (case cellValue m ncols columnIndex player of
        Inl e \<Rightarrow> Inl e
      | Inr v \<Rightarrow>
          (case setCell cv (playerIndex + 1) columnIndex v of
             Inl e \<Rightarrow> Inl e
           | Inr cv' \<Rightarrow> fillPlayers m ncols columnIndex (playerIndex + 1) rest cv'))"

text \<open>
  The outer loop runs \<open>columnIndex\<close> from 0 up to \<open>len(cellValues[0])\<close>. Its body writes
  rows \<open>playerIndex + 1\<close> only, never row 0, so the bound is the length of the header
  row throughout and the loop is a recursion over the column indices.
\<close>

fun fillColumns ::
  "goint list gomap \<Rightarrow> string list \<Rightarrow> nat \<Rightarrow> nat list \<Rightarrow> row list \<Rightarrow> error + row list" where
  "fillColumns m playerKeys ncols [] cv = Inr cv"
| "fillColumns m playerKeys ncols (columnIndex # cols) cv =
     (case fillPlayers m ncols columnIndex 0 playerKeys cv of
        Inl e \<Rightarrow> Inl e
      | Inr cv' \<Rightarrow> fillColumns m playerKeys ncols cols cv')"

text \<open>
  \<open>sort.Strings\<close> leaves the keys in ascending byte-wise order; equal strings cannot be
  told apart, so the result is the sorted list whatever algorithm produced it.
\<close>

definition cellValuesUnsorted ::
  "(string \<Rightarrow> string) \<Rightarrow> MSFPlayerCharacter list gomap \<Rightarrow> MSFTeam list \<Rightarrow> error + row list" where
  "cellValuesUnsorted uni pcm teams =
     (let m = playerTeamsMap uni teams pcm;
          cv0 = replicate (length m + 1) (replicate (length teams + 2) CNil);
          cv1 = cv0[0 := headerRow teams];
          playerKeys = sort (map fst m);
          ncols = length (cv1 ! 0)
      in fillColumns m playerKeys ncols [0..<ncols] cv1)"

subsection \<open>The range address\<close>

text \<open>The 26 column letters, in the order of the source's slice literal.\<close>

definition sheetCellIndexToLetter :: "string list" where
  "sheetCellIndexToLetter =
     [''A'', ''B'', ''C'', ''D'', ''E'', ''F'', ''G'', ''H'']
     @ [''I'', ''J'', ''K'', ''L'', ''M'', ''N'', ''O'', ''P'']
     @ [''Q'', ''R'', ''S'', ''T'', ''U'', ''V'', ''W'', ''X'', ''Y'', ''Z'']"

text \<open>
  \<open>fmt.Sprintf("%s!A1:%s%s", sheetName, sheetCellIndexToLetter[ncols-1], strconv.Itoa(nrows))\<close>
  with \<open>ncols = len(cellValues[0])\<close> and \<open>nrows = len(cellValues)\<close>; the index panics
  outside \<open>0..25\<close>.
\<close>

definition writeRangeOf :: "string \<Rightarrow> nat \<Rightarrow> nat \<Rightarrow> error + string" where
  "writeRangeOf sheetName ncols nrows =
     (if ncols = 0 \<or> length sheetCellIndexToLetter \<le> ncols - 1 then Inl IndexOutOfRange
      else Inr (sheetName @ ''!A1:'' @ sheetCellIndexToLetter ! (ncols - 1) @ Itoa (int nrows)))"

subsection \<open>The whole function\<close>

text \<open>
  Lines 581 to 655: the table handed to the sheet, \<open>valueRange.Values\<close>, or the panic.
  \<open>Less\<close> panics on a row without cells, which the sort would reach as soon as there is
  one.
\<close>

definition sortedCellValues ::
  "(row list \<Rightarrow> row list) \<Rightarrow> (string \<Rightarrow> string) \<Rightarrow> MSFPlayerCharacter list gomap
     \<Rightarrow> MSFTeam list \<Rightarrow> error + row list" where
  "sortedCellValues srt uni pcm teams =
     (case cellValuesUnsorted uni pcm teams of
        Inl e \<Rightarrow> Inl e
      | Inr cv \<Rightarrow> if [] \<in> set cv then Inl IndexOutOfRange else Inr (srt cv))"

text \<open>Line 657 and the return: the pair \<open>(writeRange, valueRange.Values)\<close>.\<close>

definition generateAverageTeamPowerByPlayerReport ::
  "(row list \<Rightarrow> row list) \<Rightarrow> (string \<Rightarrow> string) \<Rightarrow> MSFPlayerCharacter list gomap
     \<Rightarrow> MSFTeam list \<Rightarrow> string \<Rightarrow> error + (string \<times> row list)" where
  "generateAverageTeamPowerByPlayerReport srt uni pcm teams sheetName =
     (case sortedCellValues srt uni pcm teams of
        Inl e \<Rightarrow> Inl e
      | Inr cellValues \<Rightarrow>
          if cellValues = [] then Inl IndexOutOfRange
          else
            (case writeRangeOf sheetName (length (cellValues ! 0)) (length cellValues) of
               Inl e \<Rightarrow> Inl e
             | Inr writeRange \<Rightarrow> Inr (writeRange, cellValues)))"

text \<open>
  The sort parameter meets the contract of \<open>sort.Sort\<close> on the table of this input.
\<close>

definition sortOK ::
  "(row list \<Rightarrow> row list) \<Rightarrow> (string \<Rightarrow> string) \<Rightarrow> MSFPlayerCharacter list gomap
     \<Rightarrow> MSFTeam list \<Rightarrow> bool" where
  "sortOK srt uni pcm teams =
     (case cellValuesUnsorted uni pcm teams of
        Inl e \<Rightarrow> True
      | Inr cv \<Rightarrow> sortContract cv (srt cv))"

section \<open>The team catalogue and the four reports\<close>

definition aim :: MSFTeam where
  "aim =
     \<lparr>Name = ''A.I.M.'', Label = ''AIM'',
      Characters = [''scientist-supreme'', ''graviton'', ''aim-monstruosity'', ''aim-assualter'', ''aim-security'']\<rparr>"

definition asgardian :: MSFTeam where
  "asgardian =
     \<lparr>Name = ''Asgardian'', Label = ''ASG'',
      Characters = [''hela'', ''thor'', ''loki'', ''sif'', ''heimdall'']\<rparr>"

definition avengers :: MSFTeam where
  "avengers =
     \<lparr>Name = ''Avengers'', Label = ''AVG'',
      Characters = [''captain-america'', ''captain-marvel'', ''hulk'', ''black-widow'', ''hawkeye'']\<rparr>"

definition blackOrder :: MSFTeam where
  "blackOrder =
     \<lparr>Name = ''Black Order'', Label = ''BO'',
      Characters = [''ebony-maw'', ''thanos'', ''cull-obsidian'', ''corvus-glaive'', ''proxima-midnight'']\<rparr>"

definition brawlers :: MSFTeam where
  "brawlers =
     \<lparr>Name = ''Brawlers'', Label = ''BRAWL'',
      Characters = [''america-chavez'', ''squirrelgirl'', ''miss-marvel'', ''psylocke'', ''wolverine'']\<rparr>"

definition brotherhoodV2 :: MSFTeam where
  "brotherhoodV2 =
     \<lparr>Name = ''Brotherhood V2'', Label = ''BH2'',
      Characters = [''juggernaut'', ''toad'', ''blob'', ''pyro'', ''magneto'']\<rparr>"

definition defenders :: MSFTeam where
  "defenders =
     \<lparr>Name = ''Defenders'', Label = ''DEF'',
      Characters = [''luke-cage'', ''jessica-jones'', ''iron-fist'', ''daredevil'', ''punisher'']\<rparr>"

definition defTron :: MSFTeam where
  "defTron =
     \<lparr>Name = ''Deftron'', Label = ''DEFTRON'',
      Characters = [''ultron'', ''jessica-jones'', ''iron-fist'', ''daredevil'', ''punisher'']\<rparr>"

definition fantasticFour :: MSFTeam where
  "fantasticFour =
     \<lparr>Name = ''Fantastic Four'', Label = ''F4'',
      Characters = [''invisible-woman'', ''the-thing'', ''human-torch'', ''mister-fantastic'', ''namor'']\<rparr>"

definition guardians :: MSFTeam where
  "guardians =
     \<lparr>Name = ''Guardians of the Galaxy'', Label = ''GOG'',
      Characters = [''star-lord'', ''groot'', ''drax'', ''rocket-racoon'', ''mantis'']\<rparr>"

definition hydra :: MSFTeam where
  "hydra =
     \<lparr>Name = ''Hydra'', Label = ''HY'',
      Characters = [''hydra-armored-guard'', ''hydra-scientist'', ''hydra-rifle-trooper'', ''hydra-sniper'', ''red-skull'']\<rparr>"

definition hydraV2 :: MSFTeam where
  "hydraV2 =
     \<lparr>Name = ''Hydra V2'', Label = ''HY2'',
      Characters = [''hydra-grenadier'', ''winter-soldier'', ''kingpin'', ''crossbones'']\<rparr>"

definition inhumans :: MSFTeam where
  "inhumans =
     \<lparr>Name = ''Inhumans'', Label = ''INH'',
      Characters = [''quake'', ''crystal'', ''karnak'', ''yoyo'', ''black-bolt'']\<rparr>"

definition marauders :: MSFTeam where
  "marauders =
     \<lparr>Name = ''Marauders'', Label = ''MAR'',
      Characters = [''mister-sinister'', ''sabretooth'', ''emmafrost'', ''mystique'', ''stryfe'']\<rparr>"

definition mawTron :: MSFTeam where
  "mawTron =
     \<lparr>Name = ''Mawtron'', Label = ''MAWTRON'',
      Characters = [''ultron'', ''ebony-maw'', ''black-bolt'', ''minn-erva'', ''thanos'']\<rparr>"

definition mercenaries :: MSFTeam where
  "mercenaries =
     \<lparr>Name = ''Mercenaries'', Label = ''MERC'',
      Characters = [''taskmaster'', ''mercenary-sniper'', ''mercenary-riot-guard'', ''mercenary-lieutenant'', ''bullseye'']\<rparr>"

definition powerArmorV2 :: MSFTeam where
  "powerArmorV2 =
     \<lparr>Name = ''Power Armor V2'', Label = ''PA2'',
      Characters = [''iron-man'', ''iron-heart'', ''war-machine'', ''falcon'', ''rescue'']\<rparr>"

definition shieldCoulson :: MSFTeam where
  "shieldCoulson =
     \<lparr>Name = ''S.H.I.E.L.D. Coulson'', Label = ''SHC'',
      Characters = [''nick-fury'', ''coulson'', ''shield-medic'', ''shield-security'', ''shield-assault'']\<rparr>"

definition sinisterSix :: MSFTeam where
  "sinisterSix =
     \<lparr>Name = ''Sinister 6'', Label = ''S6'',
      Characters = [''rhino'', ''green-goblin'', ''shocker'', ''vulture'', ''mysterio'']\<rparr>"

definition supernatural :: MSFTeam where
  "supernatural =
     \<lparr>Name = ''Supernatural'', Label = ''SN'',
      Characters = [''mordo'', ''ghost-rider'', ''scarlet-witch'', ''doctor-strange'', ''elsa-bloodstone'']\<rparr>"

definition symbiotes :: MSFTeam where
  "symbiotes =
     \<lparr>Name = ''Symbiotes'', Label = ''SYM'',
      Characters = [''spider-man-symbiote'', ''carnage'', ''venom'', ''spider-man'', ''spider-man-miles'']\<rparr>"

definition symTech :: MSFTeam where
  "symTech =
     \<lparr>Name = ''SymTech'', Label = ''SYMTECH'',
      Characters = [''spider-man-symbiote'', ''carnage'', ''venom'', ''scientist-supreme'', ''shuri'']\<rparr>"

definition techWing :: MSFTeam where
  "techWing =
     \<lparr>Name = ''TechWing'', Label = ''TECHWING'',
      Characters = [''ultron'', ''scientist-supreme'', ''shuri'', ''minn-erva'', ''falcon'']\<rparr>"

definition ultronsAngels :: MSFTeam where
  "ultronsAngels =
     \<lparr>Name = ''Ultron's Angels'', Label = ''ANGELTRON'',
      Characters = [''ultron'', ''shuri'', ''scientist-supreme'', ''invisible-woman'', ''minn-erva'']\<rparr>"

definition wakandans :: MSFTeam where
  "wakandans =
     \<lparr>Name = ''Wakandans'', Label = ''WAK'',
      Characters = [''shuri'', ''black-panther'', ''killmonger'', ''mbaku'', ''okoye'']\<rparr>"

definition xForce :: MSFTeam where
  "xForce =
     \<lparr>Name = ''X-Force'', Label = ''XFORCE'',
      Characters = [''negasonic'', ''cable'', ''deadpool'', ''domino'', ''x23'']\<rparr>"

definition xMen :: MSFTeam where
  "xMen =
     \<lparr>Name = ''X-Men'', Label = ''XMEN'',
      Characters = [''wolverine'', ''colossus'', ''cyclops'', ''storm'', ''phoenix'']\<rparr>"

text \<open>
  The \<open>teams\<close> slice of each of the four report functions, and what the function hands
  to \<open>updateSheet\<close>.
\<close>

definition warOffenseTeams :: "MSFTeam list" where
  "warOffenseTeams =
     [blackOrder, brotherhoodV2, defTron, fantasticFour, hydraV2, inhumans, powerArmorV2, supernatural, symbiotes, xForce, xMen]"

definition generateTopWarOffenseTeamsByPlayerReport ::
  "(row list \<Rightarrow> row list) \<Rightarrow> (string \<Rightarrow> string) \<Rightarrow> MSFPlayerCharacter list gomap
     \<Rightarrow> error + (string \<times> row list)" where
  "generateTopWarOffenseTeamsByPlayerReport srt uni pcm =
     generateAverageTeamPowerByPlayerReport srt uni pcm warOffenseTeams ''Offense''"

definition warDefenseTeams :: "MSFTeam list" where
  "warDefenseTeams =
     [asgardian, hydra, marauders, mercenaries, shieldCoulson, avengers, brawlers, sinisterSix]"

definition generateTopWarDefenseTeamsByPlayerReport ::
  "(row list \<Rightarrow> row list) \<Rightarrow> (string \<Rightarrow> string) \<Rightarrow> MSFPlayerCharacter list gomap
     \<Rightarrow> error + (string \<times> row list)" where
  "generateTopWarDefenseTeamsByPlayerReport srt uni pcm =
     generateAverageTeamPowerByPlayerReport srt uni pcm warDefenseTeams ''Defense''"

definition warFlexTeams :: "MSFTeam list" where
  "warFlexTeams =
     [aim, defenders, guardians, wakandans]"

definition generateTopWarFlexTeamsByPlayerReport ::
  "(row list \<Rightarrow> row list) \<Rightarrow> (string \<Rightarrow> string) \<Rightarrow> MSFPlayerCharacter list gomap
     \<Rightarrow> error + (string \<times> row list)" where
  "generateTopWarFlexTeamsByPlayerReport srt uni pcm =
     generateAverageTeamPowerByPlayerReport srt uni pcm warFlexTeams ''Flex''"

definition u7RaidTeams :: "MSFTeam list" where
  "u7RaidTeams =
     [mawTron, symTech, techWing, ultronsAngels]"

definition generateTopU7RaidTeamsByPlayerReport ::
  "(row list \<Rightarrow> row list) \<Rightarrow> (string \<Rightarrow> string) \<Rightarrow> MSFPlayerCharacter list gomap
     \<Rightarrow> error + (string \<times> row list)" where
  "generateTopU7RaidTeamsByPlayerReport srt uni pcm =
     generateAverageTeamPowerByPlayerReport srt uni pcm u7RaidTeams ''U7''"

section \<open>Closed forms used in the proofs\<close>

text \<open>
  The row the loops build for one player, and the whole table before the sort; both are
  proved equal to what the code computes (\<open>cellValuesUnsorted_table\<close>).
\<close>

definition playerRow ::
  "(string \<Rightarrow> string) \<Rightarrow> MSFTeam list \<Rightarrow> MSFPlayerCharacter list gomap \<Rightarrow> string \<Rightarrow> row" where
  "playerRow uni teams pcm player =
     (let totals = map (\<lambda>team. teamTotalPower uni team (lookupOrNil pcm player)) teams
      in CStr player # map CInt totals @ [CInt (goDiv (sum_list totals) (of_nat (length teams)))])"

definition unsortedTable ::
  "(string \<Rightarrow> string) \<Rightarrow> MSFPlayerCharacter list gomap \<Rightarrow> MSFTeam list \<Rightarrow> row list" where
  "unsortedTable uni pcm teams =
     headerRow teams
     # (if teams = [] then [] else map (playerRow uni teams pcm) (sort (map fst pcm)))"

text \<open>
  \<open>Less\<close> on two rows, and the insertion of a row into a list of rows kept with the
  last row of the slice first: \<open>insertionSort\<close> is proved to build the reverse of the
  list that \<open>insL\<close> builds (\<open>insertionSort_eq\<close>). A table has at most one row whose
  trailing cell is not an int, the header.
\<close>

definition lessRow :: "row \<Rightarrow> row \<Rightarrow> bool" where
  "lessRow x y =
     (case trailingInt x of
        None \<Rightarrow> True
      | Some A \<Rightarrow> (case trailingInt y of None \<Rightarrow> False | Some B \<Rightarrow> B <s A))"

fun insL :: "row \<Rightarrow> row list \<Rightarrow> row list" where
  "insL x [] = [x]"
| "insL x (y # ys) = (if lessRow x y then y # insL x ys else x # y # ys)"

definition oneNonInt :: "row list \<Rightarrow> bool" where
  "oneNonInt data = (length (filter (\<lambda>r. trailingInt r = None) data) \<le> 1)"

section \<open>Concrete inputs and readings of the specification\<close>

text \<open>
  Scenario A of the specification: one team whose only member is \<open>hulk\<close>; alice owns a
  \<open>Hulk\<close> of power 100, bob owns nothing that matches.
\<close>

definition hulkTeam :: MSFTeam where
  "hulkTeam = \<lparr>Name = ''Hulk Team'', Label = ''HLK'', Characters = [''hulk'']\<rparr>"

definition scenarioA :: "MSFPlayerCharacter list" where
  "scenarioA =
     [\<lparr>ID = ''thor'', Player = ''bob'', Power = 7\<rparr>,
      \<lparr>ID = ''Hulk'', Player = ''alice'', Power = 100\<rparr>]"

definition tableA :: "row list" where
  "tableA =
     [[CStr ''Player'', CStr ''HLK'', CStr ''Average''],
      [CStr ''alice'', CInt 100, CInt 100],
      [CStr ''bob'', CInt 0, CInt 0]]"

text \<open>
  The cells \<open>row[1..teamCount]\<close> of a row as ints, and the reading of the specification
  that the trailing cell is the floor of their mathematical sum divided by the team
  count.
\<close>

definition perTeamTotals :: "nat \<Rightarrow> row \<Rightarrow> goint list" where
  "perTeamTotals teamCount r =
     map (\<lambda>c. case c of CInt v \<Rightarrow> v | _ \<Rightarrow> 0) (take teamCount (drop 1 r))"

definition spec_floor_average :: "nat \<Rightarrow> row \<Rightarrow> bool" where
  "spec_floor_average teamCount r =
     (case trailingInt r of
        None \<Rightarrow> False
      | Some average \<Rightarrow>
          sint average = sum_list (map sint (perTeamTotals teamCount r)) div int teamCount)"

text \<open>
  The reading of the specification of a team total: the sum of \<open>Power\<close> over the records
  whose lower-cased \<open>ID\<close> is one of the team's members, each record counted once.
\<close>

definition spec_matchingPower ::
  "(string \<Rightarrow> string) \<Rightarrow> MSFTeam \<Rightarrow> MSFPlayerCharacter list \<Rightarrow> goint" where
  "spec_matchingPower uni team characters =
     sum_list (map Power (filter (\<lambda>c. ToLower uni (ID c) \<in> set (Characters team)) characters))"

definition thorTeam :: MSFTeam where
  "thorTeam = \<lparr>Name = ''Thor Team'', Label = ''THR'', Characters = [''thor'']\<rparr>"

definition asgardTeam :: MSFTeam where
  "asgardTeam = \<lparr>Name = ''Asgard'', Label = ''ASG'', Characters = [''thor'', ''loki'']\<rparr>"

text \<open>Two powers whose sum exceeds the largest 64-bit int.\<close>

definition overflowRecords :: "MSFPlayerCharacter list" where
  "overflowRecords =
     [\<lparr>ID = ''hulk'', Player = ''alice'', Power = 4611686018427387904\<rparr>,
      \<lparr>ID = ''thor'', Player = ''alice'', Power = 4611686018427387905\<rparr>]"

definition overflowRow :: row where
  "overflowRow =
     [CStr ''alice'', CInt 4611686018427387904, CInt 4611686018427387905,
      CInt (- 4611686018427387903)]"

text \<open>Scenario B of the specification, with the odd sum: 51 and 30.\<close>

definition scenarioB :: "MSFPlayerCharacter list" where
  "scenarioB =
     [\<lparr>ID = ''Hulk'', Player = ''carl'', Power = 51\<rparr>,
      \<lparr>ID = ''Thor'', Player = ''carl'', Power = 30\<rparr>]"

definition tableB :: "row list" where
  "tableB =
     [[CStr ''Player'', CStr ''HLK'', CStr ''THR'', CStr ''Average''],
      [CStr ''carl'', CInt 51, CInt 30, CInt 40]]"

text \<open>A team that lists one member twice.\<close>

definition twiceTeam :: MSFTeam where
  "twiceTeam = \<lparr>Name = ''Twice'', Label = ''TW'', Characters = [''thor'', ''thor'']\<rparr>"

definition thorRecords :: "MSFPlayerCharacter list" where
  "thorRecords = [\<lparr>ID = ''Thor'', Player = ''dana'', Power = 10\<rparr>]"

definition tableThor :: "row list" where
  "tableThor =
     [[CStr ''Player'', CStr ''THR'', CStr ''ASG'', CStr ''Average''],
      [CStr ''dana'', CInt 10, CInt 10, CInt 10]]"

text \<open>
  The two possible places of the rows whose trailing cell is not an int: after every row
  with an int trailing cell (the reading of the specification), or before every such row.
\<close>

definition spec_nonIntRowsLast :: "row list \<Rightarrow> bool" where
  "spec_nonIntRowsLast tbl =
     sorted_wrt (\<lambda>x y. \<not> (trailingInt x = None \<and> trailingInt y \<noteq> None)) tbl"

definition nonIntRowsFirst :: "row list \<Rightarrow> bool" where
  "nonIntRowsFirst tbl =
     sorted_wrt (\<lambda>x y. \<not> (trailingInt x \<noteq> None \<and> trailingInt y = None)) tbl"

text \<open>
  The player of a row, and the reading of the specification that rows with equal int
  trailing cells stand in ascending order of the player.
\<close>

definition ownerOf :: "row \<Rightarrow> string" where
  "ownerOf r = (case r of CStr s # _ \<Rightarrow> s | _ \<Rightarrow> [])"

definition spec_tiesAscending :: "row list \<Rightarrow> bool" where
  "spec_tiesAscending tbl =
     sorted_wrt (\<lambda>x y. trailingInt x \<noteq> None \<and> trailingInt x = trailingInt y
                        \<longrightarrow> ownerOf x < ownerOf y) tbl"

text \<open>
  A sort keeps ties when the rows of each trailing value stand in the same order after
  it as before it; \<open>sort.Sort\<close> does not promise this.
\<close>

definition keepsTies :: "row list \<Rightarrow> row list \<Rightarrow> bool" where
  "keepsTies before after =
     list_all (\<lambda>r. filter (\<lambda>x. trailingInt x = trailingInt r) after
                    = filter (\<lambda>x. trailingInt x = trailingInt r) before) before"

definition sortStable ::
  "(row list \<Rightarrow> row list) \<Rightarrow> (string \<Rightarrow> string) \<Rightarrow> MSFPlayerCharacter list gomap
     \<Rightarrow> MSFTeam list \<Rightarrow> bool" where
  "sortStable srt uni pcm teams =
     (case cellValuesUnsorted uni pcm teams of
        Inl e \<Rightarrow> True
      | Inr cv \<Rightarrow> keepsTies cv (srt cv))"

text \<open>Seven players with one \<open>hulk\<close> each; a and b tie at 5, g has the largest power.\<close>

definition tieRecords :: "MSFPlayerCharacter list" where
  "tieRecords =
     [\<lparr>ID = ''hulk'', Player = ''a'', Power = 5\<rparr>,
      \<lparr>ID = ''hulk'', Player = ''b'', Power = 5\<rparr>,
      \<lparr>ID = ''hulk'', Player = ''c'', Power = 1\<rparr>,
      \<lparr>ID = ''hulk'', Player = ''d'', Power = 1\<rparr>,
      \<lparr>ID = ''hulk'', Player = ''e'', Power = 1\<rparr>,
      \<lparr>ID = ''hulk'', Player = ''f'', Power = 1\<rparr>,
      \<lparr>ID = ''hulk'', Player = ''g'', Power = 10\<rparr>]"

definition tieTable :: "row list" where
  "tieTable =
     [[CStr ''Player'', CStr ''HLK'', CStr ''Average''],
      [CStr ''g'', CInt 10, CInt 10],
      [CStr ''b'', CInt 5, CInt 5],
      [CStr ''a'', CInt 5, CInt 5],
      [CStr ''c'', CInt 1, CInt 1],
      [CStr ''d'', CInt 1, CInt 1],
      [CStr ''e'', CInt 1, CInt 1],
      [CStr ''f'', CInt 1, CInt 1]]"

text \<open>Three players; a and b tie at 5.\<close>

definition smallTieRecords :: "MSFPlayerCharacter list" where
  "smallTieRecords =
     [\<lparr>ID = ''hulk'', Player = ''b'', Power = 5\<rparr>,
      \<lparr>ID = ''hulk'', Player = ''c'', Power = 9\<rparr>,
      \<lparr>ID = ''hulk'', Player = ''a'', Power = 5\<rparr>]"

definition smallTieTable :: "row list" where
  "smallTieTable =
     [[CStr ''Player'', CStr ''HLK'', CStr ''Average''],
      [CStr ''c'', CInt 9, CInt 9],
      [CStr ''a'', CInt 5, CInt 5],
      [CStr ''b'', CInt 5, CInt 5]]"

text \<open>One record, for the four configured reports.\<close>

definition asgardRecords :: "MSFPlayerCharacter list" where
  "asgardRecords = [\<lparr>ID = ''Thanos'', Player = ''erin'', Power = 40\<rparr>]"

text \<open>
  Twelve players with one \<open>hulk\<close> each, all of power 1 except the last; the table of 13
  rows is the shortest that \<open>pdqsort\<close> partitions.
\<close>

definition twelveRecords :: "MSFPlayerCharacter list" where
  "twelveRecords =
     map (\<lambda>p. \<lparr>ID = ''hulk'', Player = p, Power = 1\<rparr>)
       [''a'', ''b'', ''c'', ''d'', ''e'', ''f''] @
     map (\<lambda>p. \<lparr>ID = ''hulk'', Player = p, Power = 1\<rparr>)
       [''g'', ''h'', ''i'', ''j'', ''k''] @
     [\<lparr>ID = ''hulk'', Player = ''l'', Power = 2\<rparr>]"

definition twelveTable :: "row list" where
  "twelveTable =
     [[CStr ''Player'', CStr ''HLK'', CStr ''Average''],
      [CStr ''l'', CInt 2, CInt 2],
      [CStr ''f'', CInt 1, CInt 1],
      [CStr ''c'', CInt 1, CInt 1],
      [CStr ''d'', CInt 1, CInt 1],
      [CStr ''e'', CInt 1, CInt 1],
      [CStr ''b'', CInt 1, CInt 1],
      [CStr ''g'', CInt 1, CInt 1],
      [CStr ''h'', CInt 1, CInt 1],
      [CStr ''i'', CInt 1, CInt 1],
      [CStr ''j'', CInt 1, CInt 1],
      [CStr ''k'', CInt 1, CInt 1],
      [CStr ''a'', CInt 1, CInt 1]]"

text \<open>
  Two records that differ only in the case of ASCII letters of the \<open>ID\<close>.
\<close>

definition sameUpToCase :: "MSFPlayerCharacter \<Rightarrow> MSFPlayerCharacter \<Rightarrow> bool" where
  "sameUpToCase c d =
     (isASCII (ID c) \<and> isASCII (ID d) \<and> map lowerByte (ID c) = map lowerByte (ID d)
      \<and> Power c = Power d)"

text \<open>
  An \<open>ID\<close> that is not ASCII: \<open>hul\<close> followed by the Kelvin sign U+212A (the bytes
  \<open>E2 84 AA\<close>), which \<open>unicode.ToLower\<close> maps to \<open>k\<close>; \<open>kelvinLower\<close> is a Unicode
  mapping that does so on this \<open>ID\<close>.
\<close>

definition kelvinID :: string where
  "kelvinID = ''hul'' @ [char_of (226 :: nat), char_of (132 :: nat), char_of (170 :: nat)]"

definition kelvinLower :: "string \<Rightarrow> string" where
  "kelvinLower s = (if s = kelvinID then ''hulk'' else s)"

definition kelvinRecords :: "MSFPlayerCharacter list" where
  "kelvinRecords = [\<lparr>ID = kelvinID, Player = ''al'', Power = 3\<rparr>]"

text \<open>
  In the concrete inputs of the theorems below the parameters \<open>uni\<close>, \<open>large\<close> and
  \<open>deeper\<close> are left \<open>undefined\<close> wherever the \<open>ID\<close>s are ASCII and the tables short:
  the evaluation does not apply them.
\<close>

section \<open>What the loops compute\<close>

subsection \<open>Team totals\<close>

lemma fold_add_sum_list:
  fixes a :: goint
  shows "fold (\<lambda>x total. total + x) xs a = a + sum_list xs"
  by (induction xs arbitrary: a) (simp_all add: add.assoc)

lemma fold_match_sum:
  "fold (\<lambda>character t. if ToLower uni (ID character) = tc then t + Power character else t) cs t0
     = t0 + sum_list (map Power (filter (\<lambda>c. ToLower uni (ID c) = tc) cs))"
  by (induction cs arbitrary: t0) (simp_all add: add.assoc)

lemma fold_members_sum:
  "fold (\<lambda>teamCharacter total.
           fold (\<lambda>character t. if ToLower uni (ID character) = teamCharacter then t + Power character else t) cs total)
        tcs t0
     = t0 + sum_list (map (\<lambda>tc. sum_list (map Power (filter (\<lambda>c. ToLower uni (ID c) = tc) cs))) tcs)"
  by (induction tcs arbitrary: t0) (simp_all add: fold_match_sum add.assoc)

lemma teamTotalPower_by_member:
  "teamTotalPower uni team cs
     = sum_list (map (\<lambda>tc. sum_list (map Power (filter (\<lambda>c. ToLower uni (ID c) = tc) cs))) (Characters team))"
  by (simp add: teamTotalPower_def fold_members_sum)

lemma sum_by_member_count:
  "sum_list (map (\<lambda>tc. sum_list (map Power (filter (\<lambda>c. ToLower uni (ID c) = tc) cs))) tcs)
     = sum_list (map (\<lambda>c. of_nat (count_list tcs (ToLower uni (ID c))) * Power c) cs)"
proof (induction tcs)
  case Nil
  show ?case by (induction cs) simp_all
next
  case (Cons tc tcs)
  have split: "sum_list (map (\<lambda>c. of_nat (count_list (tc # tcs) (ToLower uni (ID c))) * Power c) cs)
      = sum_list (map Power (filter (\<lambda>c. ToLower uni (ID c) = tc) cs))
        + sum_list (map (\<lambda>c. of_nat (count_list tcs (ToLower uni (ID c))) * Power c) cs)"
    by (induction cs) (simp_all add: algebra_simps)
  show ?case by (simp only: list.map sum_list.Cons Cons.IH split)
qed

lemma count_list_distinct:
  "distinct xs \<Longrightarrow> count_list xs x = (if x \<in> set xs then 1 else 0)"
  by (induction xs) auto

lemma sum_by_member_distinct:
  "distinct tcs \<Longrightarrow>
   sum_list (map (\<lambda>c. of_nat (count_list tcs (ToLower uni (ID c))) * Power c) cs)
     = sum_list (map Power (filter (\<lambda>c. ToLower uni (ID c) \<in> set tcs) cs))"
proof (induction cs)
  case Nil
  show ?case by simp
next
  case (Cons c cs)
  have "count_list tcs (ToLower uni (ID c)) = (if ToLower uni (ID c) \<in> set tcs then 1 else 0)"
    using Cons.prems by (rule count_list_distinct)
  with Cons show ?case by simp
qed

subsection \<open>The two maps\<close>

lemma lookupOrNil_update:
  "lookupOrNil (AList.update k v m) q = (if q = k then v else lookupOrNil m q)"
  by (simp add: lookupOrNil_def update_conv')

lemma lookupOrNil_empty: "lookupOrNil [] q = []"
  by (simp add: lookupOrNil_def)

lemma lookupOrNil_entry:
  "distinct (map fst m) \<Longrightarrow> (k, v) \<in> set m \<Longrightarrow> lookupOrNil m k = v"
  by (simp add: lookupOrNil_def)

lemma addCharacter_distinct:
  "distinct (map fst m) \<Longrightarrow> distinct (map fst (addCharacter c m))"
  by (simp add: addCharacter_def distinct_update split: option.split)

lemma addCharacter_keys: "fst ` set (addCharacter c m) = insert (Player c) (fst ` set m)"
  by (simp add: addCharacter_def dom_update split: option.split)

lemma addCharacter_lookup:
  "lookupOrNil (addCharacter c m) p
     = (if p = Player c then lookupOrNil m p @ [c] else lookupOrNil m p)"
  by (auto simp: addCharacter_def lookupOrNil_update split: option.split)
     (simp_all add: lookupOrNil_def)

lemma fold_addCharacter_distinct:
  "distinct (map fst m) \<Longrightarrow> distinct (map fst (fold addCharacter rs m))"
  by (induction rs arbitrary: m) (simp_all add: addCharacter_distinct)

lemma fold_addCharacter_keys:
  "fst ` set (fold addCharacter rs m) = fst ` set m \<union> Player ` set rs"
  by (induction rs arbitrary: m) (simp_all add: addCharacter_keys)

lemma fold_addCharacter_lookup:
  "lookupOrNil (fold addCharacter rs m) p = lookupOrNil m p @ filter (\<lambda>c. Player c = p) rs"
  by (induction rs arbitrary: m) (auto simp: addCharacter_lookup)

lemma playerCharactersMap_distinct: "distinct (map fst (playerCharactersMap rs))"
  by (simp add: playerCharactersMap_def fold_addCharacter_distinct)

lemma playerCharactersMap_keys: "fst ` set (playerCharactersMap rs) = Player ` set rs"
  by (simp add: playerCharactersMap_def fold_addCharacter_keys)

lemma playerCharactersMap_lookup:
  "lookupOrNil (playerCharactersMap rs) p = filter (\<lambda>c. Player c = p) rs"
  by (simp add: playerCharactersMap_def fold_addCharacter_lookup lookupOrNil_empty)

lemma addPlayerTeam_distinct:
  "distinct (map fst m) \<Longrightarrow> distinct (map fst (addPlayerTeam uni team e m))"
  by (simp add: addPlayerTeam_def Let_def distinct_update)

lemma addPlayerTeam_keys: "fst ` set (addPlayerTeam uni team e m) = insert (fst e) (fst ` set m)"
  by (simp add: addPlayerTeam_def Let_def dom_update)

lemma addPlayerTeam_lookup:
  "lookupOrNil (addPlayerTeam uni team e m) q
     = (if q = fst e then lookupOrNil m q @ [teamTotalPower uni team (snd e)] else lookupOrNil m q)"
  by (auto simp: addPlayerTeam_def Let_def lookupOrNil_update)
     (simp_all add: lookupOrNil_def)

lemma fold_addPlayerTeam_distinct:
  "distinct (map fst m) \<Longrightarrow> distinct (map fst (fold (addPlayerTeam uni team) pcm m))"
  by (induction pcm arbitrary: m) (simp_all add: addPlayerTeam_distinct)

lemma fold_addPlayerTeam_keys:
  "fst ` set (fold (addPlayerTeam uni team) pcm m) = fst ` set m \<union> fst ` set pcm"
  by (induction pcm arbitrary: m) (simp_all add: addPlayerTeam_keys)

lemma fold_addPlayerTeam_lookup:
  "distinct (map fst pcm) \<Longrightarrow>
   lookupOrNil (fold (addPlayerTeam uni team) pcm m) q
     = (if q \<in> fst ` set pcm then lookupOrNil m q @ [teamTotalPower uni team (lookupOrNil pcm q)]
        else lookupOrNil m q)"
proof (induction pcm arbitrary: m)
  case Nil
  show ?case by simp
next
  case (Cons e pcm)
  obtain p cs where e: "e = (p, cs)" by (cases e)
  from Cons.prems e have notin: "p \<notin> fst ` set pcm" and dist: "distinct (map fst pcm)"
    by auto
  have here: "lookupOrNil (e # pcm) p = cs"
    by (simp add: lookupOrNil_def e)
  have there: "q \<noteq> p \<Longrightarrow> lookupOrNil (e # pcm) q = lookupOrNil pcm q"
    by (simp add: lookupOrNil_def e)
  show ?case
    using notin here there
    by (auto simp: Cons.IH [OF dist] addPlayerTeam_lookup e)
qed

lemma playerTeamsMap_fold_distinct:
  "distinct (map fst m) \<Longrightarrow>
   distinct (map fst (fold (\<lambda>team m. fold (addPlayerTeam uni team) pcm m) teams m))"
  by (induction teams arbitrary: m) (simp_all add: fold_addPlayerTeam_distinct)

lemma playerTeamsMap_fold_keys:
  "fst ` set (fold (\<lambda>team m. fold (addPlayerTeam uni team) pcm m) teams m)
     = fst ` set m \<union> (if teams = [] then {} else fst ` set pcm)"
  by (induction teams arbitrary: m) (auto simp: fold_addPlayerTeam_keys)

lemma playerTeamsMap_fold_lookup:
  "distinct (map fst pcm) \<Longrightarrow>
   lookupOrNil (fold (\<lambda>team m. fold (addPlayerTeam uni team) pcm m) teams m) q
     = (if q \<in> fst ` set pcm
        then lookupOrNil m q @ map (\<lambda>team. teamTotalPower uni team (lookupOrNil pcm q)) teams
        else lookupOrNil m q)"
  by (induction teams arbitrary: m) (simp_all add: fold_addPlayerTeam_lookup)

lemma playerTeamsMap_distinct: "distinct (map fst (playerTeamsMap uni teams pcm))"
  by (simp add: playerTeamsMap_def playerTeamsMap_fold_distinct)

lemma playerTeamsMap_keys:
  "fst ` set (playerTeamsMap uni teams pcm) = (if teams = [] then {} else fst ` set pcm)"
  by (simp add: playerTeamsMap_def playerTeamsMap_fold_keys)

lemma playerTeamsMap_lookup:
  "distinct (map fst pcm) \<Longrightarrow> q \<in> fst ` set pcm \<Longrightarrow>
   lookupOrNil (playerTeamsMap uni teams pcm) q
     = map (\<lambda>team. teamTotalPower uni team (lookupOrNil pcm q)) teams"
  by (simp add: playerTeamsMap_def playerTeamsMap_fold_lookup lookupOrNil_empty)

subsection \<open>Filling the table\<close>

lemma fold_labels:
  "fold (\<lambda>team h. h @ [CStr (Label team)]) teams h0 = h0 @ map (\<lambda>team. CStr (Label team)) teams"
  by (induction teams arbitrary: h0) simp_all

lemma headerRow_eq:
  "headerRow teams = CStr ''Player'' # map (\<lambda>team. CStr (Label team)) teams @ [CStr ''Average'']"
  by (simp add: headerRow_def fold_labels)

lemma length_headerRow: "length (headerRow teams) = length teams + 2"
  by (simp add: headerRow_eq)

lemma setCell_append:
  "c < length row \<Longrightarrow>
   setCell (pre @ row # post) (length pre) c v = Inr (pre @ row[c := v] # post)"
  by (simp add: setCell_def)

lemma fillPlayers_append:
  "length rows = length ps \<Longrightarrow> \<forall>row\<in>set rows. c < length row \<Longrightarrow>
   \<forall>p\<in>set ps. cellValue m ncols c p = Inr (f p) \<Longrightarrow> length pre = Suc pidx \<Longrightarrow>
   fillPlayers m ncols c pidx ps (pre @ rows @ post)
     = Inr (pre @ map2 (\<lambda>row p. row[c := f p]) rows ps @ post)"
proof (induction ps arbitrary: rows pre pidx)
  case Nil
  then show ?case by simp
next
  case (Cons p ps)
  from Cons.prems(1) obtain row rows' where rows: "rows = row # rows'"
    by (cases rows) auto
  from Cons.prems rows have c: "c < length row" by simp
  have step: "setCell (pre @ row # rows' @ post) (Suc pidx) c (f p)
      = Inr (pre @ row[c := f p] # rows' @ post)"
    using setCell_append [OF c, of pre "rows' @ post" "f p"] Cons.prems(4) by simp
  have rest: "fillPlayers m ncols c (Suc pidx) ps ((pre @ [row[c := f p]]) @ rows' @ post)
      = Inr ((pre @ [row[c := f p]]) @ map2 (\<lambda>row p. row[c := f p]) rows' ps @ post)"
    using Cons.prems rows by (intro Cons.IH) simp_all
  have cell: "cellValue m ncols c p = Inr (f p)"
    using Cons.prems(3) by simp
  show ?case
    using rest by (simp add: rows cell step)
qed

lemma map2_fst_id: "length xs = length ys \<Longrightarrow> map2 (\<lambda>x y. x) xs ys = xs"
  by (induction xs ys rule: list_induct2) simp_all

lemma map2_map2:
  "length xs = length ys \<Longrightarrow>
   map2 g (map2 h xs ys) ys = map2 (\<lambda>x y. g (h x y) y) xs ys"
  by (induction xs ys rule: list_induct2) simp_all

lemma map2_replicate:
  "map2 h (replicate (length ys) x) ys = map (h x) ys"
  by (induction ys) simp_all

lemma fillColumns_rows:
  "length rows = length ps \<Longrightarrow> \<forall>row\<in>set rows. length row = ncols \<Longrightarrow>
   \<forall>c\<in>set cs. c < ncols \<and> (\<forall>p\<in>set ps. cellValue m ncols c p = Inr (f c p)) \<Longrightarrow>
   fillColumns m ps ncols cs (hdr # rows)
     = Inr (hdr # map2 (\<lambda>row p. fold (\<lambda>c r. r[c := f c p]) cs row) rows ps)"
proof (induction cs arbitrary: rows)
  case Nil
  then show ?case by (simp add: map2_fst_id)
next
  case (Cons c cs)
  let ?rows' = "map2 (\<lambda>row p. row[c := f c p]) rows ps"
  have col: "fillPlayers m ncols c 0 ps ([hdr] @ rows @ []) = Inr ([hdr] @ ?rows' @ [])"
    using Cons.prems by (intro fillPlayers_append) auto
  have len: "length ?rows' = length ps"
    using Cons.prems(1) by simp
  have lens: "\<forall>row\<in>set ?rows'. length row = ncols"
    using Cons.prems(2) by (auto dest!: set_zip_leftD)
  have IH: "fillColumns m ps ncols cs (hdr # ?rows')
      = Inr (hdr # map2 (\<lambda>row p. fold (\<lambda>c r. r[c := f c p]) cs row) ?rows' ps)"
    using Cons.prems(3) by (intro Cons.IH [OF len lens]) simp
  show ?case
    using col IH by (simp add: map2_map2 [OF Cons.prems(1)])
qed

lemma fold_update_upt:
  "k \<le> length r \<Longrightarrow> fold (\<lambda>c r. r[c := g c]) [0..<k] r = map g [0..<k] @ drop k r"
proof (induction k)
  case 0
  show ?case by simp
next
  case (Suc k)
  then have k: "k < length r" by simp
  have d: "drop k r = r ! k # drop (Suc k) r"
    using k by (simp add: Cons_nth_drop_Suc)
  have "(map g [0..<k] @ drop k r)[k := g k] = map g [0..<k] @ g k # drop (Suc k) r"
    by (simp add: d list_update_append)
  then show ?case
    using Suc.IH k by simp
qed

lemma fold_update_all:
  "fold (\<lambda>c r. r[c := g c]) [0..<n] (replicate n x) = map g [0..<n]"
  by (simp add: fold_update_upt)

lemma cellValue_nth:
  assumes "totals = lookupOrNil m p" and "totals \<noteq> []" and "c < length totals + 2"
  shows "cellValue m (length totals + 2) c p
     = Inr ((CStr p # map CInt totals
               @ [CInt (goDiv (sum_list totals) (of_nat (length totals)))]) ! c)"
proof -
  consider "c = 0" | "c = length totals + 1" | "0 < c" "c \<le> length totals"
    using assms(3) by linarith
  then show ?thesis
  proof cases
    case 1
    then show ?thesis by (simp add: cellValue_def)
  next
    case 2
    then show ?thesis
      using assms(1,2)
      by (simp add: cellValue_def Let_def fold_add_sum_list nth_append)
  next
    case 3
    then show ?thesis
      using assms(1)
      by (cases c) (simp_all add: cellValue_def Let_def nth_append)
  qed
qed

subsection \<open>The table before and after the sort\<close>

lemma length_playerRow: "length (playerRow uni teams pcm p) = length teams + 2"
  by (simp add: playerRow_def Let_def)

lemma playerRow_not_Nil: "playerRow uni teams pcm p \<noteq> []"
  by (simp add: playerRow_def Let_def)

lemma cellValuesUnsorted_eq:
  assumes dist: "distinct (map fst pcm)"
  shows "cellValuesUnsorted uni pcm teams
     = Inr (headerRow teams
            # map (playerRow uni teams pcm) (sort (map fst (playerTeamsMap uni teams pcm))))"
proof -
  define m where "m = playerTeamsMap uni teams pcm"
  define ks where "ks = sort (map fst m)"
  define ncols where "ncols = length teams + 2"
  define f where "f = (\<lambda>c p. playerRow uni teams pcm p ! c)"
  have lenks: "length ks = length m"
    by (simp add: ks_def)
  have cv1: "(replicate (length m + 1) (replicate (length teams + 2) CNil))[0 := headerRow teams]
      = headerRow teams # replicate (length ks) (replicate ncols CNil)"
    by (simp add: lenks ncols_def)
  have cells: "\<forall>c\<in>set [0..<ncols]. c < ncols \<and> (\<forall>p\<in>set ks. cellValue m ncols c p = Inr (f c p))"
  proof (intro ballI conjI)
    fix c
    assume "c \<in> set [0..<ncols]"
    then show "c < ncols" by simp
  next
    fix c p
    assume c: "c \<in> set [0..<ncols]" and p: "p \<in> set ks"
    from p have pm: "p \<in> fst ` set m"
      by (simp add: ks_def)
    then have teams: "teams \<noteq> []" and ppcm: "p \<in> fst ` set pcm"
      by (auto simp: m_def playerTeamsMap_keys split: if_splits)
    have tot: "lookupOrNil m p = map (\<lambda>team. teamTotalPower uni team (lookupOrNil pcm p)) teams"
      by (simp add: m_def playerTeamsMap_lookup [OF dist ppcm])
    have "cellValue m (length (map (\<lambda>team. teamTotalPower uni team (lookupOrNil pcm p)) teams) + 2) c p
        = Inr ((CStr p # map CInt (map (\<lambda>team. teamTotalPower uni team (lookupOrNil pcm p)) teams)
                 @ [CInt (goDiv (sum_list (map (\<lambda>team. teamTotalPower uni team (lookupOrNil pcm p)) teams))
                      (of_nat (length (map (\<lambda>team. teamTotalPower uni team (lookupOrNil pcm p)) teams))))]) ! c)"
      using tot teams c by (intro cellValue_nth) (auto simp: ncols_def)
    then show "cellValue m ncols c p = Inr (f c p)"
      by (simp add: f_def playerRow_def Let_def ncols_def)
  qed
  have fill: "fillColumns m ks ncols [0..<ncols]
        (headerRow teams # replicate (length ks) (replicate ncols CNil))
      = Inr (headerRow teams
             # map2 (\<lambda>row p. fold (\<lambda>c r. r[c := f c p]) [0..<ncols] row)
                 (replicate (length ks) (replicate ncols CNil)) ks)"
    using cells by (intro fillColumns_rows) simp_all
  have row: "map (\<lambda>c. f c p) [0..<ncols] = playerRow uni teams pcm p" for p
    unfolding f_def ncols_def length_playerRow [symmetric, where uni = uni and teams = teams and pcm = pcm and p = p] by (rule map_nth)
  have rows: "map2 (\<lambda>row p. fold (\<lambda>c r. r[c := f c p]) [0..<ncols] row)
        (replicate (length ks) (replicate ncols CNil)) ks
      = map (playerRow uni teams pcm) ks"
    by (simp add: map2_replicate fold_update_all row)
  have nc: "length (headerRow teams) = ncols"
    by (simp add: length_headerRow ncols_def)
  show ?thesis
    unfolding cellValuesUnsorted_def Let_def m_def [symmetric] cv1 ks_def [symmetric]
      nth_Cons_0 nc
    by (simp only: fill rows)
qed

lemma sort_keys_eq:
  "distinct xs \<Longrightarrow> distinct ys \<Longrightarrow> set xs = set ys \<Longrightarrow> sort xs = sort (ys :: string list)"
  by (metis distinct_remdups_id sorted_list_of_set_sort_remdups)

lemma playerKeys_eq:
  "distinct (map fst pcm) \<Longrightarrow>
   sort (map fst (playerTeamsMap uni teams pcm)) = (if teams = [] then [] else sort (map fst pcm))"
proof (cases "teams = []")
  case True
  then show ?thesis by (simp add: playerTeamsMap_def)
next
  case False
  assume "distinct (map fst pcm)"
  then have "sort (map fst (playerTeamsMap uni teams pcm)) = sort (map fst pcm)"
    using playerTeamsMap_keys [where uni = uni and teams = teams and pcm = pcm] False
    by (intro sort_keys_eq playerTeamsMap_distinct) simp_all
  with False show ?thesis by simp
qed

lemma cellValuesUnsorted_table:
  "distinct (map fst pcm) \<Longrightarrow> cellValuesUnsorted uni pcm teams = Inr (unsortedTable uni pcm teams)"
  by (simp add: cellValuesUnsorted_eq playerKeys_eq unsortedTable_def)

lemma unsortedTable_lengths: "r \<in> set (unsortedTable uni pcm teams) \<Longrightarrow> length r = length teams + 2"
  by (auto simp: unsortedTable_def length_headerRow length_playerRow split: if_splits)

lemma unsortedTable_no_empty_row: "[] \<notin> set (unsortedTable uni pcm teams)"
  using unsortedTable_lengths [where r = "[]" and uni = uni and pcm = pcm and teams = teams] by auto

lemma sortedCellValues_eq:
  "distinct (map fst pcm) \<Longrightarrow> sortedCellValues srt uni pcm teams = Inr (srt (unsortedTable uni pcm teams))"
  by (simp add: sortedCellValues_def cellValuesUnsorted_table unsortedTable_no_empty_row)

lemma sortOK_iff:
  "distinct (map fst pcm) \<Longrightarrow>
   sortOK srt uni pcm teams
     = sortContract (unsortedTable uni pcm teams) (srt (unsortedTable uni pcm teams))"
  by (simp add: sortOK_def cellValuesUnsorted_table)

lemma sortedByLess_iff: "sortedByLess a = (\<forall>j<length a. \<forall>i<j. \<not> Less a j i)"
  by (auto simp: sortedByLess_def list_all_iff)

lemma trailingInt_headerRow: "trailingInt (headerRow teams) = None"
  by (simp add: trailingInt_def headerRow_eq)

lemma trailingInt_playerRow:
  "trailingInt (playerRow uni teams pcm p)
     = Some (goDiv (sum_list (map (\<lambda>team. teamTotalPower uni team (lookupOrNil pcm p)) teams))
               (of_nat (length teams)))"
  by (simp add: trailingInt_def playerRow_def Let_def)

lemma header_first:
  assumes perm: "mset ys = mset (hdr # rows)" and sorted: "sortedByLess ys"
    and hdr: "trailingInt hdr = None" and rows: "\<forall>r\<in>set rows. trailingInt r \<noteq> None"
  shows "ys = hdr # tl ys" and "mset (tl ys) = mset rows"
proof -
  from perm have "hdr \<in> set ys"
    by (metis list.set_intros(1) set_mset_mset)
  then obtain j where j: "j < length ys" "ys ! j = hdr"
    by (auto simp: in_set_conv_nth)
  have "j = 0"
  proof (rule ccontr)
    assume "j \<noteq> 0"
    then have "\<not> Less ys j 0"
      using sorted j(1) by (simp add: sortedByLess_iff)
    then show False
      using j(2) hdr by (simp add: Less_def)
  qed
  with j show hd: "ys = hdr # tl ys"
    by (cases ys) simp_all
  from perm show "mset (tl ys) = mset rows"
    by (subst (asm) hd) simp
qed

section \<open>The sorted table and the returned pair\<close>

lemma final_table:
  assumes ok: "sortOK srt uni (playerCharactersMap records) teams"
  obtains rows where
    "sortedCellValues srt uni (playerCharactersMap records) teams = Inr (headerRow teams # rows)"
    and "mset rows = mset (if teams = [] then []
           else map (playerRow uni teams (playerCharactersMap records))
                  (sort (map fst (playerCharactersMap records))))"
    and "sortedByLess (headerRow teams # rows)"
proof -
  let ?pcm = "playerCharactersMap records"
  let ?rows0 = "if teams = [] then [] else map (playerRow uni teams ?pcm) (sort (map fst ?pcm))"
  let ?ys = "srt (unsortedTable uni ?pcm teams)"
  have dist: "distinct (map fst ?pcm)"
    by (rule playerCharactersMap_distinct)
  from ok have contract: "sortContract (unsortedTable uni ?pcm teams) ?ys"
    by (simp add: sortOK_iff [OF dist])
  then have perm: "mset ?ys = mset (headerRow teams # ?rows0)" and sorted: "sortedByLess ?ys"
    by (simp_all add: sortContract_def unsortedTable_def)
  have ints: "\<forall>r\<in>set ?rows0. trailingInt r \<noteq> None"
    by (auto simp: trailingInt_playerRow)
  note hf = header_first [OF perm sorted trailingInt_headerRow ints]
  show thesis
  proof (rule that [of "tl ?ys"])
    show "sortedCellValues srt uni ?pcm teams = Inr (headerRow teams # tl ?ys)"
      using hf(1) by (simp add: sortedCellValues_eq [OF dist])
    show "mset (tl ?ys) = mset ?rows0"
      by (rule hf(2))
    show "sortedByLess (headerRow teams # tl ?ys)"
      using sorted hf(1) by simp
  qed
qed

lemma generate_table:
  "generateAverageTeamPowerByPlayerReport srt uni pcm teams sheetName = Inr (wr, tbl) \<Longrightarrow>
   sortedCellValues srt uni pcm teams = Inr tbl"
  by (auto simp: generateAverageTeamPowerByPlayerReport_def split: sum.splits if_splits)

lemma writeRangeOf_ok:
  "0 < ncols \<Longrightarrow> ncols \<le> 26 \<Longrightarrow>
   writeRangeOf sheetName ncols nrows
     = Inr (sheetName @ ''!A1:'' @ sheetCellIndexToLetter ! (ncols - 1) @ Itoa (int nrows))"
  by (auto simp: writeRangeOf_def sheetCellIndexToLetter_def)

lemma generate_returns:
  assumes "sortedCellValues srt uni pcm teams = Inr (hdr # rows)"
    and "length hdr = length teams + 2" and "length teams \<le> 24"
  shows "\<exists>wr. generateAverageTeamPowerByPlayerReport srt uni pcm teams sheetName = Inr (wr, hdr # rows)"
  using assms by (simp add: generateAverageTeamPowerByPlayerReport_def writeRangeOf_ok)

subsection \<open>Rows, keys and word arithmetic\<close>

lemma playerKeys_props:
  "distinct (sort (map fst (playerCharactersMap records)))"
  "set (sort (map fst (playerCharactersMap records))) = Player ` set records"
  "length (sort (map fst (playerCharactersMap records))) = card (Player ` set records)"
proof -
  have d: "distinct (map fst (playerCharactersMap records))"
    by (rule playerCharactersMap_distinct)
  have s: "set (map fst (playerCharactersMap records)) = Player ` set records"
    using playerCharactersMap_keys [of records] by simp
  show "distinct (sort (map fst (playerCharactersMap records)))"
    using d by simp
  show "set (sort (map fst (playerCharactersMap records))) = Player ` set records"
    using s by simp
  show "length (sort (map fst (playerCharactersMap records))) = card (Player ` set records)"
    using distinct_card [OF d] s by simp
qed

lemma sint_word_of_int_small:
  "- (2 ^ 63) \<le> k \<Longrightarrow> k < 2 ^ 63 \<Longrightarrow> sint (word_of_int k :: goint) = k"
  by (simp add: sint_sbintrunc' signed_take_bit_int_eq_self)

lemma sint_sum_list_nonneg:
  "\<forall>t\<in>set ts. 0 \<le> sint t \<Longrightarrow> sum_list (map sint ts) < 2 ^ 63 \<Longrightarrow>
   sint (sum_list ts :: goint) = sum_list (map sint ts)"
proof (induction ts)
  case Nil
  show ?case by simp
next
  case (Cons t ts)
  have nonneg: "0 \<le> sum_list (map sint ts)"
    using Cons.prems(1) by (intro sum_list_nonneg) auto
  have t0: "0 \<le> sint t"
    using Cons.prems(1) by simp
  have "sum_list (map sint ts) < 2 ^ 63"
    using Cons.prems(2) t0 by simp
  then have IH: "sint (sum_list ts) = sum_list (map sint ts)"
    using Cons.IH Cons.prems(1) by simp
  have "sint (t + sum_list ts) = signed_take_bit 63 (sint t + sint (sum_list ts))"
    by (simp add: sint_word_ariths)
  also have "\<dots> = sint t + sum_list (map sint ts)"
    using Cons.prems(2) t0 nonneg by (simp add: IH signed_take_bit_int_eq_self)
  finally show ?case by simp
qed

lemma sint_of_nat_small: "n < 2 ^ 63 \<Longrightarrow> sint (of_nat n :: goint) = int n"
proof -
  assume "n < 2 ^ 63"
  then have "int n < 2 ^ 63"
    by (metis of_nat_less_iff of_nat_numeral of_nat_power)
  then have "sint (word_of_int (int n) :: goint) = int n"
    by (intro sint_word_of_int_small) simp_all
  then show ?thesis by simp
qed

lemma goDiv_floor:
  assumes "\<forall>t\<in>set ts. 0 \<le> sint t" and "sum_list (map sint ts) < 2 ^ 63"
    and "0 < n" and "n < 2 ^ 63"
  shows "sint (goDiv (sum_list ts) (of_nat n)) = sum_list (map sint ts) div int n"
proof -
  let ?s = "sum_list (map sint ts)"
  have s0: "0 \<le> ?s"
    using assms(1) by (intro sum_list_nonneg) auto
  have sd: "?s sdiv int n = ?s div int n"
    using s0 assms(3) by (simp add: signed_divide_int_def sgn_if)
  have q0: "0 \<le> ?s div int n"
    using s0 assms(3) by (simp add: pos_imp_zdiv_nonneg_iff)
  have "?s div int n \<le> ?s div 1"
    using s0 assms(3) by (intro zdiv_mono2) simp_all
  then have q1: "?s div int n < 2 ^ 63"
    using assms(2) by simp
  have "goDiv (sum_list ts) (of_nat n) = word_of_int (?s div int n)"
    using assms by (simp add: goDiv_def sint_sum_list_nonneg sint_of_nat_small sd)
  then show ?thesis
    using q0 q1 by (simp add: sint_word_of_int_small)
qed

lemma goDiv_zero: "goDiv 0 b = 0"
  by (simp add: goDiv_def)

lemma sum_list_map_zero: "sum_list (map (\<lambda>x. 0 :: goint) xs) = 0"
  by (induction xs) simp_all

lemma teamTotalPower_no_match:
  "\<forall>c\<in>set cs. ToLower uni (ID c) \<notin> set (Characters team) \<Longrightarrow> teamTotalPower uni team cs = 0"
proof -
  assume a: "\<forall>c\<in>set cs. ToLower uni (ID c) \<notin> set (Characters team)"
  have "filter (\<lambda>c. ToLower uni (ID c) = tc) cs = []" if "tc \<in> set (Characters team)" for tc
    using a that by (auto simp: filter_empty_conv)
  then have "map (\<lambda>tc. sum_list (map Power (filter (\<lambda>c. ToLower uni (ID c) = tc) cs))) (Characters team)
      = map (\<lambda>tc. 0) (Characters team)"
    by (intro map_cong) simp_all
  then show ?thesis
    by (simp only: teamTotalPower_by_member sum_list_map_zero)
qed

lemma playerRow_zero:
  assumes "\<forall>team\<in>set teams. teamTotalPower uni team (lookupOrNil pcm p) = 0"
  shows "playerRow uni teams pcm p = CStr p # replicate (length teams) (CInt 0) @ [CInt 0]"
proof -
  have eq: "map (\<lambda>team. teamTotalPower uni team (lookupOrNil pcm p)) teams = map (\<lambda>team. 0) teams"
    using assms by (intro map_cong) simp_all
  show ?thesis
    unfolding playerRow_def Let_def eq
    by (simp add: goDiv_zero sum_list_replicate map_replicate_const)
qed

lemma playerRow_first: "playerRow uni teams pcm p ! 0 = CStr p"
  by (simp add: playerRow_def Let_def)

lemma playerRow_total:
  "k < length teams \<Longrightarrow>
   playerRow uni teams pcm p ! (k + 1) = CInt (teamTotalPower uni (teams ! k) (lookupOrNil pcm p))"
  by (simp add: playerRow_def Let_def nth_append)

lemma final_table_rows:
  assumes "teams \<noteq> []" and "sortOK srt uni (playerCharactersMap records) teams"
  obtains rows where
    "sortedCellValues srt uni (playerCharactersMap records) teams = Inr (headerRow teams # rows)"
    and "set rows = playerRow uni teams (playerCharactersMap records) ` Player ` set records"
    and "length rows = card (Player ` set records)"
proof -
  let ?pcm = "playerCharactersMap records"
  from assms(2) obtain rows where
    tbl: "sortedCellValues srt uni ?pcm teams = Inr (headerRow teams # rows)"
    and perm: "mset rows = mset (if teams = [] then []
                 else map (playerRow uni teams ?pcm) (sort (map fst ?pcm)))"
    by (rule final_table)
  from perm assms(1) have perm': "mset rows = mset (map (playerRow uni teams ?pcm) (sort (map fst ?pcm)))"
    by simp
  have "set rows = set (map (playerRow uni teams ?pcm) (sort (map fst ?pcm)))"
    using perm' by (rule mset_eq_setD)
  then have s: "set rows = playerRow uni teams ?pcm ` Player ` set records"
    using playerKeys_props(2) [of records] by simp
  have "length rows = length (map (playerRow uni teams ?pcm) (sort (map fst ?pcm)))"
    using perm' by (rule mset_eq_length)
  then have l: "length rows = card (Player ` set records)"
    using playerKeys_props(3) [of records] by simp
  from tbl s l show thesis by (rule that)
qed

lemma perTeamTotals_playerRow:
  "perTeamTotals (length teams) (playerRow uni teams pcm p)
     = map (\<lambda>team. teamTotalPower uni team (lookupOrNil pcm p)) teams"
  by (simp add: perTeamTotals_def playerRow_def Let_def comp_def)

lemma take_totals_playerRow:
  "take (length teams) (drop 1 (playerRow uni teams pcm p))
     = map CInt (perTeamTotals (length teams) (playerRow uni teams pcm p))"
  by (simp add: perTeamTotals_playerRow) (simp add: playerRow_def Let_def)

lemma last_playerRow:
  "last (playerRow uni teams pcm p)
     = CInt (goDiv (sum_list (perTeamTotals (length teams) (playerRow uni teams pcm p)))
               (of_nat (length teams)))"
  by (simp add: perTeamTotals_playerRow) (simp add: playerRow_def Let_def)

lemma playerRow_floor:
  assumes "teams \<noteq> []" and "length teams < 2 ^ 63"
    and "\<forall>t\<in>set (perTeamTotals (length teams) (playerRow uni teams pcm p)). 0 \<le> sint t"
    and "sum_list (map sint (perTeamTotals (length teams) (playerRow uni teams pcm p))) < 2 ^ 63"
  shows "spec_floor_average (length teams) (playerRow uni teams pcm p)"
proof -
  let ?ts = "perTeamTotals (length teams) (playerRow uni teams pcm p)"
  have "trailingInt (playerRow uni teams pcm p)
      = Some (goDiv (sum_list ?ts) (of_nat (length teams)))"
    by (simp add: trailingInt_def last_playerRow)
  moreover have "sint (goDiv (sum_list ?ts) (of_nat (length teams)))
      = sum_list (map sint ?ts) div int (length teams)"
    using assms by (intro goDiv_floor) simp_all
  ultimately show ?thesis
    by (simp add: spec_floor_average_def)
qed

lemma playerRow_not_header: "teams \<noteq> [] \<Longrightarrow> playerRow uni teams pcm p \<noteq> headerRow teams"
  by (cases teams) (simp_all add: playerRow_def Let_def headerRow_eq)

lemma teamTotalPower_count:
  "teamTotalPower uni team cs
     = sum_list (map (\<lambda>c. of_nat (count_list (Characters team) (ToLower uni (ID c))) * Power c) cs)"
  by (simp only: teamTotalPower_by_member sum_by_member_count)

lemma teamTotalPower_distinct:
  "distinct (Characters team) \<Longrightarrow> teamTotalPower uni team cs = spec_matchingPower uni team cs"
  by (simp only: teamTotalPower_count sum_by_member_distinct spec_matchingPower_def)

lemma catalogue_members_distinct:
  "\<forall>team\<in>set (warOffenseTeams @ warDefenseTeams @ warFlexTeams @ u7RaidTeams).
     distinct (Characters team)"
  by code_simp

subsection \<open>Order of the sorted rows, letters, the configured reports\<close>

lemma sortedByLess_nonIntRowsFirst:
  assumes "sortedByLess a"
  shows "nonIntRowsFirst a"
  unfolding nonIntRowsFirst_def sorted_wrt_iff_nth_less
proof (intro allI impI notI)
  fix i j
  assume ij: "i < j" and j: "j < length a"
    and bad: "trailingInt (a ! i) \<noteq> None \<and> trailingInt (a ! j) = None"
  from assms ij j have "\<not> Less a j i"
    by (simp add: sortedByLess_iff)
  with bad show False
    by (simp add: Less_def)
qed

lemma letters:
  "list_all (\<lambda>c. sheetCellIndexToLetter ! (c - 1) = [char_of (64 + c)]) [1..<27]"
  by code_simp

lemma letter_of_column:
  "1 \<le> c \<Longrightarrow> c \<le> 26 \<Longrightarrow> sheetCellIndexToLetter ! (c - 1) = [char_of (64 + c)]"
  using letters by (simp add: list_all_iff)

lemma report_returns:
  assumes "sortOK srt uni (playerCharactersMap records) teams" and "length teams \<le> 24"
  shows "\<exists>wr tbl. generateAverageTeamPowerByPlayerReport srt uni (playerCharactersMap records)
                     teams sheetName = Inr (wr, tbl)
                 \<and> length (tbl ! 0) = length teams + 2"
proof -
  from assms(1) obtain rows where
    tbl: "sortedCellValues srt uni (playerCharactersMap records) teams = Inr (headerRow teams # rows)"
    by (rule final_table)
  from generate_returns [OF tbl length_headerRow assms(2)] obtain wr where
    "generateAverageTeamPowerByPlayerReport srt uni (playerCharactersMap records) teams sheetName
      = Inr (wr, headerRow teams # rows)"
    by blast
  then show ?thesis
    by (intro exI [of _ wr] exI [of _ "headerRow teams # rows"]) (simp add: length_headerRow)
qed

lemma configured_lengths:
  "length warOffenseTeams = 11" "length warDefenseTeams = 8"
  "length warFlexTeams = 4" "length u7RaidTeams = 4"
  by (simp_all add: warOffenseTeams_def warDefenseTeams_def warFlexTeams_def u7RaidTeams_def)

lemma sorted_wrt_filter_iff:
  "sorted_wrt R (filter P xs) = sorted_wrt (\<lambda>x y. P x \<and> P y \<longrightarrow> R x y) xs"
  by (induction xs) auto

lemma ownerOf_playerRow: "ownerOf (playerRow uni teams pcm p) = p"
  by (simp add: ownerOf_def playerRow_def Let_def)

lemma player_rows_ascending:
  assumes "distinct (map fst pcm)"
  shows "sorted_wrt (\<lambda>x y. ownerOf x < ownerOf y)
           (map (playerRow uni teams pcm) (sort (map fst pcm)))"
proof -
  have "sorted_wrt (<) (sort (map fst pcm))"
    using assms by (simp add: strict_sorted_iff)
  then show ?thesis
    by (simp add: sorted_wrt_map ownerOf_playerRow)
qed

lemma unsortedTable_tl_ascending:
  "distinct (map fst pcm) \<Longrightarrow>
   sorted_wrt (\<lambda>x y. ownerOf x < ownerOf y) (tl (unsortedTable uni pcm teams))"
  by (simp add: unsortedTable_def player_rows_ascending)

lemma stable_ties_ascending:
  assumes perm: "mset ys = mset (hdr # rows)"
    and keeps: "keepsTies (hdr # rows) ys"
    and hdr: "trailingInt hdr = None"
    and asc: "sorted_wrt (\<lambda>x y. ownerOf x < ownerOf y) rows"
  shows "spec_tiesAscending ys"
  unfolding spec_tiesAscending_def sorted_wrt_iff_nth_less
proof (intro allI impI)
  fix i j
  assume ij: "i < j" and j: "j < length ys"
    and tie: "trailingInt (ys ! i) \<noteq> None \<and> trailingInt (ys ! i) = trailingInt (ys ! j)"
  let ?Q = "\<lambda>x. trailingInt x = trailingInt (ys ! i)"
  have "ys ! i \<in> set ys"
    using ij j by simp
  then have mem: "ys ! i \<in> set (hdr # rows)"
    using perm by (metis set_mset_mset)
  have all: "\<forall>r\<in>set (hdr # rows).
      filter (\<lambda>x. trailingInt x = trailingInt r) ys
        = filter (\<lambda>x. trailingInt x = trailingInt r) (hdr # rows)"
    using keeps by (simp only: keepsTies_def list_all_iff)
  from all mem have "filter ?Q ys = filter ?Q (hdr # rows)"
    by (rule bspec)
  also have "\<dots> = filter ?Q rows"
    using hdr tie by auto
  finally have "sorted_wrt (\<lambda>x y. ownerOf x < ownerOf y) (filter ?Q ys)"
    using asc by (simp add: sorted_wrt_filter)
  then have "sorted_wrt (\<lambda>x y. ?Q x \<and> ?Q y \<longrightarrow> ownerOf x < ownerOf y) ys"
    by (simp only: sorted_wrt_filter_iff)
  then have "?Q (ys ! i) \<and> ?Q (ys ! j) \<longrightarrow> ownerOf (ys ! i) < ownerOf (ys ! j)"
    using ij j unfolding sorted_wrt_iff_nth_less by blast
  with tie show "ownerOf (ys ! i) < ownerOf (ys ! j)"
    by simp
qed

text \<open>
  The contract can be met for every input: the header followed by the player rows in
  descending order of the trailing int is a rearrangement with no row \<open>Less\<close> than an
  earlier one.
\<close>

lemma sortContract_satisfiable: "\<exists>ys. sortContract (unsortedTable uni pcm teams) ys"
proof -
  define k where "k = (\<lambda>r. case trailingInt r of Some n \<Rightarrow> sint n | None \<Rightarrow> 0)"
  define rows where "rows = tl (unsortedTable uni pcm teams)"
  define zs where "zs = rev (sort_key k rows)"
  let ?ys = "headerRow teams # zs"
  have table: "unsortedTable uni pcm teams = headerRow teams # rows"
    by (simp add: rows_def unsortedTable_def)
  have ints: "\<forall>r\<in>set rows. trailingInt r \<noteq> None"
    by (auto simp: rows_def unsortedTable_def trailingInt_playerRow)
  have perm: "mset ?ys = mset (unsortedTable uni pcm teams)"
    by (simp add: table zs_def)
  have "sorted_wrt (\<lambda>x y. k x \<le> k y) (sort_key k rows)"
    using sorted_sort_key [of k rows] by (simp add: sorted_map)
  then have desc: "sorted_wrt (\<lambda>x y. k y \<le> k x) zs"
    by (simp add: zs_def sorted_wrt_rev)
  have zints: "\<forall>r\<in>set zs. trailingInt r \<noteq> None"
    using ints by (simp add: zs_def)
  have "\<not> Less ?ys j i" if "j < length ?ys" and "i < j" for i j
  proof -
    from that obtain j' where j': "j = Suc j'" and j'len: "j' < length zs"
      by (cases j) auto
    from zints j'len obtain A where A: "trailingInt (zs ! j') = Some A"
      by (metis nth_mem not_None_eq)
    show ?thesis
    proof (cases i)
      case 0
      then show ?thesis
        by (simp add: Less_def j' A trailingInt_headerRow)
    next
      case (Suc i')
      with that j' have i'j': "i' < j'" by simp
      with j'len zints obtain B where B: "trailingInt (zs ! i') = Some B"
        by (metis nth_mem not_None_eq order.strict_trans)
      from desc i'j' j'len have "k (zs ! j') \<le> k (zs ! i')"
        by (simp add: sorted_wrt_iff_nth_less)
      then have "sint A \<le> sint B"
        by (simp add: k_def A B)
      then show ?thesis
        by (simp add: Less_def j' Suc A B word_sless_alt)
    qed
  qed
  then have "sortedByLess ?ys"
    by (simp only: sortedByLess_iff) blast
  with perm show ?thesis
    unfolding sortContract_def by blast
qed

lemma sortOK_satisfiable: "\<exists>srt. sortOK srt uni (playerCharactersMap records) teams"
proof -
  obtain ys where "sortContract (unsortedTable uni (playerCharactersMap records) teams) ys"
    using sortContract_satisfiable by blast
  then have "sortOK (\<lambda>cv. ys) uni (playerCharactersMap records) teams"
    by (simp add: sortOK_iff playerCharactersMap_distinct)
  then show ?thesis by blast
qed

section \<open>The library sort on the table\<close>

subsection \<open>Insertion sort\<close>

lemma Less_lessRow: "Less a i j = lessRow (a ! i) (a ! j)"
  by (simp add: Less_def lessRow_def)

lemma Swap_adjacent:
  "Swap (pre @ y # x # post) (Suc (length pre)) (length pre) = pre @ x # y # post"
  by (simp add: Swap_def nth_append list_update_append)

lemma length_insL: "length (insL x ys) = Suc (length ys)"
  by (induction ys) simp_all

lemma mset_insL: "mset (insL x ys) = add_mset x (mset ys)"
  by (induction ys) simp_all

lemma mset_fold_insL: "mset (fold insL xs S) = mset xs + mset S"
  by (induction xs arbitrary: S) (simp_all add: mset_insL)

lemma length_fold_insL: "length (fold insL xs S) = length xs + length S"
  by (induction xs arbitrary: S) (simp_all add: length_insL)

lemma insertDown_append:
  "length pre = j \<Longrightarrow> insertDown (pre @ x # post) 0 j = rev (insL x (rev pre)) @ post"
proof (induction pre arbitrary: j post rule: rev_induct)
  case Nil
  then show ?case by simp
next
  case (snoc y ps)
  then have j: "j = Suc (length ps)" by simp
  have less: "Less ((ps @ [y]) @ x # post) j (j - 1) = lessRow x y"
    by (simp add: Less_lessRow j nth_append)
  show ?case
  proof (cases "lessRow x y")
    case True
    have sw: "Swap ((ps @ [y]) @ x # post) j (j - 1) = ps @ x # y # post"
      using Swap_adjacent [of ps y x post] by (simp add: j)
    have "insertDown ((ps @ [y]) @ x # post) 0 j = insertDown (ps @ x # y # post) 0 (length ps)"
      using True less sw by (subst insertDown.simps) (simp add: j)
    also have "\<dots> = rev (insL x (rev ps)) @ y # post"
      by (rule snoc.IH) simp
    finally show ?thesis
      using True by simp
  next
    case False
    then have "insertDown ((ps @ [y]) @ x # post) 0 j = (ps @ [y]) @ x # post"
      using less by (subst insertDown.simps) simp
    then show ?thesis
      using False by simp
  qed
qed

lemma insertion_fold:
  "k \<le> length data \<Longrightarrow>
   fold (\<lambda>i d. insertDown d 0 i) [1..<k] data = rev (fold insL (take k data) []) @ drop k data"
proof (induction k)
  case 0
  show ?case by simp
next
  case (Suc k)
  then have k: "k < length data" by simp
  let ?S = "fold insL (take k data) []"
  have lenS: "length (rev ?S) = k"
    using k by (simp add: length_fold_insL)
  have take: "take (Suc k) data = take k data @ [data ! k]"
    using k by (simp add: take_Suc_conv_app_nth)
  have drop: "drop k data = data ! k # drop (Suc k) data"
    using k by (simp add: Cons_nth_drop_Suc)
  show ?case
  proof (cases k)
    case 0
    with k show ?thesis
      by (cases data) simp_all
  next
    case (Suc k')
    then have "[1..<Suc k] = [1..<k] @ [k]" by simp
    then have "fold (\<lambda>i d. insertDown d 0 i) [1..<Suc k] data
        = insertDown (fold (\<lambda>i d. insertDown d 0 i) [1..<k] data) 0 k"
      by simp
    also have "\<dots> = insertDown (rev ?S @ data ! k # drop (Suc k) data) 0 k"
      using Suc.IH k by (simp add: drop)
    also have "\<dots> = rev (insL (data ! k) (rev (rev ?S))) @ drop (Suc k) data"
      by (rule insertDown_append [OF lenS])
    finally show ?thesis
      by (simp add: take)
  qed
qed

lemma insertionSort_eq: "insertionSort data 0 (length data) = rev (fold insL data [])"
  using insertion_fold [of "length data" data] by (simp add: insertionSort_def)

subsection \<open>Order and ties\<close>

lemma lessRow_asym:
  "lessRow x y \<Longrightarrow> \<not> (trailingInt x = None \<and> trailingInt y = None) \<Longrightarrow> \<not> lessRow y x"
  by (auto simp: lessRow_def word_sless_alt split: option.splits)

lemma not_lessRow_trans: "\<not> lessRow x y \<Longrightarrow> \<not> lessRow y z \<Longrightarrow> \<not> lessRow x z"
  by (auto simp: lessRow_def word_sless_alt split: option.splits)

lemma lessRow_keys: "lessRow x y \<Longrightarrow> trailingInt x = trailingInt y \<Longrightarrow> trailingInt x = None"
  by (auto simp: lessRow_def word_sless_alt split: option.splits)

lemma set_insL: "set (insL x ys) = insert x (set ys)"
  by (induction ys) auto

lemma sorted_insL:
  assumes "sorted_wrt (\<lambda>a b. \<not> lessRow a b) S"
    and "\<forall>y\<in>set S. \<not> (trailingInt x = None \<and> trailingInt y = None)"
  shows "sorted_wrt (\<lambda>a b. \<not> lessRow a b) (insL x S)"
  using assms
proof (induction S)
  case Nil
  show ?case by simp
next
  case (Cons y ys)
  show ?case
  proof (cases "lessRow x y")
    case True
    have "\<not> lessRow y x"
      using True Cons.prems(2) by (intro lessRow_asym) auto
    moreover have "sorted_wrt (\<lambda>a b. \<not> lessRow a b) (insL x ys)"
      using Cons by simp
    ultimately show ?thesis
      using True Cons.prems(1) by (auto simp: set_insL)
  next
    case False
    have "\<not> lessRow x b" if "b \<in> set ys" for b
    proof -
      have "\<not> lessRow y b" using that Cons.prems(1) by simp
      with False show ?thesis by (rule not_lessRow_trans)
    qed
    then have "\<forall>b\<in>set ys. \<not> lessRow x b" by blast
    then show ?thesis
      using False Cons.prems(1) by simp
  qed
qed

lemma oneNonInt_Cons:
  "oneNonInt (x # xs) \<Longrightarrow> oneNonInt xs \<and> (\<forall>y\<in>set xs. \<not> (trailingInt x = None \<and> trailingInt y = None))"
  by (auto simp: oneNonInt_def filter_empty_conv split: if_splits)

lemma oneNonInt_mset: "mset xs = mset ys \<Longrightarrow> oneNonInt xs = oneNonInt ys"
  unfolding oneNonInt_def by (metis mset_filter size_mset)

lemma sorted_fold_insL:
  "sorted_wrt (\<lambda>a b. \<not> lessRow a b) S \<Longrightarrow> oneNonInt (xs @ S) \<Longrightarrow>
   sorted_wrt (\<lambda>a b. \<not> lessRow a b) (fold insL xs S)"
proof (induction xs arbitrary: S)
  case Nil
  then show ?case by simp
next
  case (Cons x xs)
  from Cons.prems(2) have one: "oneNonInt (x # (xs @ S))" by simp
  from oneNonInt_Cons [OF one] have rest: "oneNonInt (xs @ S)"
    and apart: "\<forall>y\<in>set S. \<not> (trailingInt x = None \<and> trailingInt y = None)"
    by auto
  have s: "sorted_wrt (\<lambda>a b. \<not> lessRow a b) (insL x S)"
    by (rule sorted_insL [OF Cons.prems(1) apart])
  have "mset (xs @ insL x S) = mset (x # (xs @ S))"
    by (simp add: mset_insL)
  from oneNonInt_mset [OF this] one have "oneNonInt (xs @ insL x S)"
    by blast
  from Cons.IH [OF s this] show ?case
    by simp
qed

lemma sortedByLess_rev:
  "sortedByLess (rev S) = sorted_wrt (\<lambda>a b. \<not> lessRow a b) S"
proof -
  have "sortedByLess a = sorted_wrt (\<lambda>e l. \<not> lessRow l e) a" for a
    by (auto simp: sortedByLess_iff sorted_wrt_iff_nth_less Less_lessRow)
  then show ?thesis
    by (simp add: sorted_wrt_rev)
qed

lemma insertionSort_contract:
  assumes "oneNonInt data"
  shows "sortContract data (insertionSort data 0 (length data))"
proof -
  have "sorted_wrt (\<lambda>a b. \<not> lessRow a b) (fold insL data [])"
    using assms by (intro sorted_fold_insL) simp_all
  then show ?thesis
    by (simp add: sortContract_def insertionSort_eq sortedByLess_rev mset_fold_insL)
qed

lemma filter_insL:
  assumes "\<forall>y\<in>set S. \<not> (trailingInt x = None \<and> trailingInt y = None)"
  shows "filter (\<lambda>r. trailingInt r = k) (insL x S)
     = (if trailingInt x = k then x # filter (\<lambda>r. trailingInt r = k) S
        else filter (\<lambda>r. trailingInt r = k) S)"
  using assms
proof (induction S)
  case Nil
  show ?case by simp
next
  case (Cons y ys)
  show ?case
  proof (cases "lessRow x y")
    case True
    then have "trailingInt x \<noteq> trailingInt y"
      using lessRow_keys [of x y] Cons.prems by auto
    with True Cons show ?thesis by auto
  next
    case False
    then show ?thesis by simp
  qed
qed

lemma filter_fold_insL:
  "oneNonInt (xs @ S) \<Longrightarrow>
   filter (\<lambda>r. trailingInt r = k) (fold insL xs S)
     = rev (filter (\<lambda>r. trailingInt r = k) xs) @ filter (\<lambda>r. trailingInt r = k) S"
proof (induction xs arbitrary: S)
  case Nil
  show ?case by simp
next
  case (Cons x xs)
  from Cons.prems have one: "oneNonInt (x # (xs @ S))" by simp
  from oneNonInt_Cons [OF one]
  have apart: "\<forall>y\<in>set S. \<not> (trailingInt x = None \<and> trailingInt y = None)"
    by auto
  have "mset (xs @ insL x S) = mset (x # (xs @ S))"
    by (simp add: mset_insL)
  from oneNonInt_mset [OF this] one have "oneNonInt (xs @ insL x S)"
    by blast
  from Cons.IH [OF this] show ?case
    by (simp add: filter_insL [OF apart])
qed

lemma insertionSort_keepsTies:
  assumes "oneNonInt data"
  shows "keepsTies data (insertionSort data 0 (length data))"
proof -
  have "oneNonInt (data @ [])" using assms by simp
  from filter_fold_insL [OF this]
  have "filter (\<lambda>r. trailingInt r = k) (rev (fold insL data []))
          = filter (\<lambda>r. trailingInt r = k) data" for k
    by (simp add: rev_filter [symmetric])
  then show ?thesis
    by (simp add: keepsTies_def list_all_iff insertionSort_eq)
qed

lemma mset_Swap: "i < length a \<Longrightarrow> j < length a \<Longrightarrow> mset (Swap a i j) = mset a"
  unfolding Swap_def by (simp add: mset_swap)

lemma length_Swap: "length (Swap a i j) = length a"
  by (simp add: Swap_def)

lemma shell_fold:
  "\<forall>i\<in>set is. i < length d \<Longrightarrow>
   mset (fold (\<lambda>i d. if Less d i (i - 6) then Swap d i (i - 6) else d) is d) = mset d
   \<and> length (fold (\<lambda>i d. if Less d i (i - 6) then Swap d i (i - 6) else d) is d) = length d"
proof (induction "is" arbitrary: d)
  case Nil
  show ?case by simp
next
  case (Cons i "is")
  let ?d = "if Less d i (i - 6) then Swap d i (i - 6) else d"
  have i: "i < length d" "i - 6 < length d"
    using Cons.prems by auto
  have m: "mset ?d = mset d" and l: "length ?d = length d"
    using i by (simp_all add: mset_Swap length_Swap)
  have "\<forall>i\<in>set is. i < length ?d"
    using Cons.prems l by simp
  from Cons.IH [OF this] m l show ?case
    by simp
qed

lemma shellPass_props:
  "mset (shellPass data 0 (length data)) = mset data"
  "length (shellPass data 0 (length data)) = length data"
  using shell_fold [of "[0 + 6..<length data]" data] by (simp_all add: shellPass_def)

lemma shell_insertion_contract:
  assumes "oneNonInt data"
  shows "sortContract data (insertionSort (shellPass data 0 (length data)) 0 (length data))"
proof -
  let ?d = "shellPass data 0 (length data)"
  have "oneNonInt ?d"
    using assms oneNonInt_mset [OF shellPass_props(1) [of data]] by simp
  from insertionSort_contract [OF this] show ?thesis
    by (simp add: sortContract_def shellPass_props)
qed

lemma SortFrom119_contract:
  assumes "oneNonInt data" and "length data \<le> 12 \<or> sortContract data (large data)"
  shows "sortContract data (SortFrom119 large data)"
proof -
  have small: "length data \<le> 1 \<Longrightarrow> sortContract data data"
    by (cases data) (auto simp: sortContract_def sortedByLess_iff)
  show ?thesis
    using assms small insertionSort_contract [OF assms(1)]
    by (auto simp: SortFrom119_def Let_def)
qed

lemma SortUpTo118_contract:
  assumes "oneNonInt data" and "length data \<le> 12 \<or> sortContract data (large data)"
  shows "sortContract data (SortUpTo118 large data)"
proof -
  have small: "length data \<le> 1 \<Longrightarrow> sortContract data data"
    by (cases data) (auto simp: sortContract_def sortedByLess_iff)
  show ?thesis
    using assms small shell_insertion_contract [OF assms(1)]
    by (auto simp: SortUpTo118_def Let_def not_less)
qed

lemma SortFrom119_keepsTies:
  assumes "oneNonInt data" and "length data \<le> 12"
  shows "keepsTies data (SortFrom119 large data)"
proof -
  have "keepsTies data data"
    by (simp add: keepsTies_def list_all_iff)
  then show ?thesis
    using assms insertionSort_keepsTies [OF assms(1)]
    by (auto simp: SortFrom119_def Let_def)
qed

lemma oneNonInt_unsortedTable: "oneNonInt (unsortedTable uni pcm teams)"
  by (auto simp: oneNonInt_def unsortedTable_def trailingInt_headerRow trailingInt_playerRow
      filter_empty_conv)

lemma length_unsortedTable:
  "length (unsortedTable uni pcm teams) \<le> Suc (length pcm)"
  by (simp add: unsortedTable_def)

subsection \<open>Both generations of \<open>sort.Sort\<close>\<close>

lemma shellPass_short: "length data \<le> 6 \<Longrightarrow> shellPass data 0 (length data) = data"
  by (simp add: shellPass_def)

lemma SortUpTo118_keepsTies:
  assumes "oneNonInt data" and "length data \<le> 6"
  shows "keepsTies data (SortUpTo118 large data)"
proof -
  have "keepsTies data data"
    by (simp add: keepsTies_def list_all_iff)
  then show ?thesis
    using assms insertionSort_keepsTies [OF assms(1)]
    by (auto simp: SortUpTo118_def Let_def shellPass_short)
qed

lemma unsortedTable_rows:
  "length (unsortedTable uni (playerCharactersMap records) teams)
     \<le> Suc (card (Player ` set records))"
  by (simp add: unsortedTable_def playerKeys_props(3) [symmetric])

lemma library_sort_meets_contract:
  assumes "srt = SortFrom119 large \<or> srt = SortUpTo118 large"
    and "card (Player ` set records) \<le> 11
         \<or> sortOK large uni (playerCharactersMap records) teams"
  shows "sortOK srt uni (playerCharactersMap records) teams"
proof -
  let ?cv = "unsortedTable uni (playerCharactersMap records) teams"
  have d: "distinct (map fst (playerCharactersMap records))"
    by (rule playerCharactersMap_distinct)
  have one: "oneNonInt ?cv"
    by (rule oneNonInt_unsortedTable)
  have "length ?cv \<le> 12 \<or> sortContract ?cv (large ?cv)"
    using assms(2) unsortedTable_rows [of uni records teams] by (auto simp: sortOK_iff [OF d])
  then have "sortContract ?cv (SortFrom119 large ?cv)" "sortContract ?cv (SortUpTo118 large ?cv)"
    by (rule SortFrom119_contract [OF one], rule SortUpTo118_contract [OF one])
  with assms(1) show ?thesis
    by (auto simp: sortOK_iff [OF d])
qed

lemma library_sort_keeps_ties:
  assumes "srt = SortFrom119 large \<and> card (Player ` set records) \<le> 11
         \<or> srt = SortUpTo118 large \<and> card (Player ` set records) \<le> 5"
  shows "sortStable srt uni (playerCharactersMap records) teams"
proof -
  let ?cv = "unsortedTable uni (playerCharactersMap records) teams"
  have d: "distinct (map fst (playerCharactersMap records))"
    by (rule playerCharactersMap_distinct)
  have one: "oneNonInt ?cv"
    by (rule oneNonInt_unsortedTable)
  note len = unsortedTable_rows [of uni records teams]
  from assms have "keepsTies ?cv (srt ?cv)"
  proof
    assume a: "srt = SortFrom119 large \<and> card (Player ` set records) \<le> 11"
    with len have "length ?cv \<le> 12" by simp
    from SortFrom119_keepsTies [OF one this] a show ?thesis by simp
  next
    assume a: "srt = SortUpTo118 large \<and> card (Player ` set records) \<le> 5"
    with len have "length ?cv \<le> 6" by simp
    from SortUpTo118_keepsTies [OF one this] a show ?thesis by simp
  qed
  then show ?thesis
    by (simp add: sortStable_def cellValuesUnsorted_table [OF d])
qed

subsection \<open>Case of the \<open>ID\<close>\<close>

lemma teamTotalPower_sameUpToCase:
  assumes "list_all2 sameUpToCase cs ds"
  shows "teamTotalPower uni team cs = teamTotalPower uni team ds"
proof -
  let ?f = "\<lambda>c. of_nat (count_list (Characters team) (ToLower uni (ID c))) * Power c :: goint"
  have "list_all2 (\<lambda>c d. ?f c = ?f d) cs ds"
    using assms by (rule list_all2_mono) (simp add: sameUpToCase_def ToLower_def)
  then have "map ?f cs = map ?f ds"
    by (induction rule: list_all2_induct) simp_all
  then show ?thesis
    by (simp only: teamTotalPower_count)
qed

section \<open>The claims\<close>

text \<open>
  C10. The header row is row 0 of the slice handed to the sort, its trailing cell is the
  string \<open>Average\<close>, which is not an int, so \<open>Less\<close> puts it before any other row; for
  every input and every sort that meets the contract of \<open>sort.Sort\<close> the header is
  row 0 of the table the function returns, and every later row ends in an int.
\<close>

theorem header_stays_first:
  assumes "sortOK srt uni (playerCharactersMap records) teams"
  shows "\<exists>cv tbl.
           cellValuesUnsorted uni (playerCharactersMap records) teams = Inr cv
         \<and> cv ! 0 = headerRow teams
         \<and> last (headerRow teams) = CStr ''Average''
         \<and> trailingInt (headerRow teams) = None
         \<and> (\<forall>j. Less cv 0 j)
         \<and> sortedCellValues srt uni (playerCharactersMap records) teams = Inr tbl
         \<and> tbl \<noteq> [] \<and> tbl ! 0 = headerRow teams
         \<and> (\<forall>i. 0 < i \<and> i < length tbl \<longrightarrow> trailingInt (tbl ! i) \<noteq> None)
         \<and> (length teams \<le> 24 \<longrightarrow>
              (\<exists>wr. generateAverageTeamPowerByPlayerReport srt uni (playerCharactersMap records)
                      teams sheetName = Inr (wr, tbl)))"
proof -
  let ?pcm = "playerCharactersMap records"
  from assms obtain rows where
    tbl: "sortedCellValues srt uni ?pcm teams = Inr (headerRow teams # rows)"
    and perm: "mset rows = mset (if teams = [] then []
                 else map (playerRow uni teams ?pcm) (sort (map fst ?pcm)))"
    by (rule final_table)
  have cv: "cellValuesUnsorted uni ?pcm teams = Inr (unsortedTable uni ?pcm teams)"
    by (simp add: cellValuesUnsorted_table playerCharactersMap_distinct)
  have first: "unsortedTable uni ?pcm teams ! 0 = headerRow teams"
    by (simp add: unsortedTable_def)
  have less: "\<forall>j. Less (unsortedTable uni ?pcm teams) 0 j"
    by (simp add: Less_def first trailingInt_headerRow)
  have "set rows = set (if teams = [] then []
                 else map (playerRow uni teams ?pcm) (sort (map fst ?pcm)))"
    using perm by (rule mset_eq_setD)
  then have ints: "\<forall>r\<in>set rows. trailingInt r \<noteq> None"
    by (auto simp: trailingInt_playerRow split: if_splits)
  have data: "\<forall>i. 0 < i \<and> i < length (headerRow teams # rows)
      \<longrightarrow> trailingInt ((headerRow teams # rows) ! i) \<noteq> None"
    using ints by (auto simp: nth_Cons split: nat.splits)
  have ret: "length teams \<le> 24 \<longrightarrow>
      (\<exists>wr. generateAverageTeamPowerByPlayerReport srt uni ?pcm teams sheetName
              = Inr (wr, headerRow teams # rows))"
    using generate_returns [OF tbl length_headerRow] by blast
  have lastc: "last (headerRow teams) = CStr ''Average''"
    by (simp add: headerRow_eq)
  show ?thesis
    using cv first less tbl data ret lastc trailingInt_headerRow [of teams]
    by (intro exI [of _ "unsortedTable uni ?pcm teams"] exI [of _ "headerRow teams # rows"]) simp
qed

theorem header_stays_first_witness:
  "sortOK (SortFrom119 undefined) undefined (playerCharactersMap scenarioA) [hulkTeam]
   \<and> cellValuesUnsorted undefined (playerCharactersMap scenarioA) [hulkTeam] = Inr tableA
   \<and> sortedCellValues (SortFrom119 undefined) undefined (playerCharactersMap scenarioA) [hulkTeam] = Inr tableA
   \<and> tableA ! 0 = headerRow [hulkTeam]
   \<and> trailingInt (tableA ! 1) \<noteq> None
   \<and> generateAverageTeamPowerByPlayerReport (SortFrom119 undefined) undefined (playerCharactersMap scenarioA)
         [hulkTeam] ''Offense'' = Inr (''Offense!A1:C3'', tableA)"
proof -
  have ok: "sortOK (SortFrom119 undefined) undefined (playerCharactersMap scenarioA) [hulkTeam]"
    by code_simp
  have cv: "cellValuesUnsorted undefined (playerCharactersMap scenarioA) [hulkTeam] = Inr tableA"
    by code_simp
  have gen: "generateAverageTeamPowerByPlayerReport (SortFrom119 undefined) undefined (playerCharactersMap scenarioA)
         [hulkTeam] ''Offense'' = Inr (''Offense!A1:C3'', tableA)"
    by code_simp
  from header_stays_first [OF ok, of "''Offense''"] obtain tbl where
    tbl: "sortedCellValues (SortFrom119 undefined) undefined (playerCharactersMap scenarioA) [hulkTeam] = Inr tbl"
    and first: "tbl ! 0 = headerRow [hulkTeam]"
    and ints: "\<forall>i. 0 < i \<and> i < length tbl \<longrightarrow> trailingInt (tbl ! i) \<noteq> None"
    and ret: "\<exists>wr. generateAverageTeamPowerByPlayerReport (SortFrom119 undefined) undefined (playerCharactersMap scenarioA)
                [hulkTeam] ''Offense'' = Inr (wr, tbl)"
    by auto
  from ret gen have eq: "tbl = tableA" by simp
  have "length tableA = 3" by (simp add: tableA_def)
  with ints eq have "trailingInt (tableA ! 1) \<noteq> None" by simp
  with ok cv gen tbl first eq show ?thesis by simp
qed



text \<open>
  C4. With at least one team, the table has one row per distinct \<open>Player\<close> of the input
  plus the header, every row has \<open>length teams + 2\<close> cells, every player has a row, and
  a player none of whose characters is a member of any team has the row of zeros. An
  \<open>ID\<close> counts as a member by its lower-cased form, which for an \<open>ID\<close> that is not ASCII
  is what the Unicode mapping \<open>uni\<close> makes of it: the \<open>ID\<close> \<open>hul\<close> with the Kelvin sign is
  a \<open>hulk\<close> and its row is not a row of zeros.
\<close>

theorem table_shape:
  assumes "teams \<noteq> []" and "sortOK srt uni (playerCharactersMap records) teams"
  shows "\<exists>tbl. sortedCellValues srt uni (playerCharactersMap records) teams = Inr tbl
           \<and> length tbl = card (Player ` set records) + 1
           \<and> (\<forall>r\<in>set tbl. length r = length teams + 2)
           \<and> (\<forall>p\<in>Player ` set records. \<exists>r\<in>set tbl. r ! 0 = CStr p)
           \<and> (\<forall>p\<in>Player ` set records.
                 (\<forall>c\<in>set records. Player c = p \<longrightarrow>
                    (\<forall>team\<in>set teams. ToLower uni (ID c) \<notin> set (Characters team)))
                 \<longrightarrow> CStr p # replicate (length teams) (CInt 0) @ [CInt 0] \<in> set tbl)
           \<and> (length teams \<le> 24 \<longrightarrow>
                (\<exists>wr. generateAverageTeamPowerByPlayerReport srt uni (playerCharactersMap records)
                        teams sheetName = Inr (wr, tbl)))"
proof -
  let ?pcm = "playerCharactersMap records"
  from assms obtain rows where
    tbl: "sortedCellValues srt uni ?pcm teams = Inr (headerRow teams # rows)"
    and rows: "set rows = playerRow uni teams ?pcm ` Player ` set records"
    and len: "length rows = card (Player ` set records)"
    by (rule final_table_rows)
  let ?tbl = "headerRow teams # rows"
  have cols: "\<forall>r\<in>set ?tbl. length r = length teams + 2"
    using rows by (auto simp: length_headerRow length_playerRow)
  have owners: "\<forall>p\<in>Player ` set records. \<exists>r\<in>set ?tbl. r ! 0 = CStr p"
    using rows playerRow_first by fastforce
  have zeros: "\<forall>p\<in>Player ` set records.
                 (\<forall>c\<in>set records. Player c = p \<longrightarrow>
                    (\<forall>team\<in>set teams. ToLower uni (ID c) \<notin> set (Characters team)))
                 \<longrightarrow> CStr p # replicate (length teams) (CInt 0) @ [CInt 0] \<in> set ?tbl"
  proof (intro ballI impI)
    fix p
    assume p: "p \<in> Player ` set records"
      and none: "\<forall>c\<in>set records. Player c = p \<longrightarrow>
                    (\<forall>team\<in>set teams. ToLower uni (ID c) \<notin> set (Characters team))"
    have "\<forall>team\<in>set teams. teamTotalPower uni team (lookupOrNil ?pcm p) = 0"
      using none by (auto simp: playerCharactersMap_lookup intro!: teamTotalPower_no_match)
    then have "playerRow uni teams ?pcm p = CStr p # replicate (length teams) (CInt 0) @ [CInt 0]"
      by (rule playerRow_zero)
    moreover have "playerRow uni teams ?pcm p \<in> set rows"
      using rows p by blast
    ultimately show "CStr p # replicate (length teams) (CInt 0) @ [CInt 0] \<in> set ?tbl"
      by simp
  qed
  have ret: "length teams \<le> 24 \<longrightarrow>
      (\<exists>wr. generateAverageTeamPowerByPlayerReport srt uni ?pcm teams sheetName = Inr (wr, ?tbl))"
    using generate_returns [OF tbl length_headerRow] by blast
  show ?thesis
    using tbl len cols owners zeros ret by (intro exI [of _ ?tbl]) simp
qed

theorem table_shape_witness:
  "[hulkTeam] \<noteq> [] \<and> sortOK (SortFrom119 undefined) undefined (playerCharactersMap scenarioA) [hulkTeam]
   \<and> sortedCellValues (SortFrom119 undefined) undefined (playerCharactersMap scenarioA) [hulkTeam] = Inr tableA
   \<and> length tableA = card (Player ` set scenarioA) + 1
   \<and> length (tableA ! 0) = 3 \<and> length (tableA ! 1) = 3 \<and> length (tableA ! 2) = 3
   \<and> [CStr ''bob'', CInt 0, CInt 0] \<in> set tableA
   \<and> generateAverageTeamPowerByPlayerReport (SortFrom119 undefined) undefined (playerCharactersMap scenarioA)
         [hulkTeam] ''Offense'' = Inr (''Offense!A1:C3'', tableA)
   \<and> sortedCellValues (SortFrom119 undefined) kelvinLower (playerCharactersMap kelvinRecords)
         [hulkTeam]
       = Inr [[CStr ''Player'', CStr ''HLK'', CStr ''Average''], [CStr ''al'', CInt 3, CInt 3]]"
proof -
  have ne: "[hulkTeam] \<noteq> []" by simp
  have kel: "sortedCellValues (SortFrom119 undefined) kelvinLower
      (playerCharactersMap kelvinRecords) [hulkTeam]
       = Inr [[CStr ''Player'', CStr ''HLK'', CStr ''Average''], [CStr ''al'', CInt 3, CInt 3]]"
    by code_simp
  have ok: "sortOK (SortFrom119 undefined) undefined (playerCharactersMap scenarioA) [hulkTeam]"
    by code_simp
  have tblA: "sortedCellValues (SortFrom119 undefined) undefined (playerCharactersMap scenarioA) [hulkTeam] = Inr tableA"
    by code_simp
  have gen: "generateAverageTeamPowerByPlayerReport (SortFrom119 undefined) undefined (playerCharactersMap scenarioA)
         [hulkTeam] ''Offense'' = Inr (''Offense!A1:C3'', tableA)"
    by code_simp
  have bob: "''bob'' \<in> Player ` set scenarioA"
    by (simp add: scenarioA_def)
  have nomatch: "\<forall>c\<in>set scenarioA. Player c = ''bob'' \<longrightarrow>
      (\<forall>team\<in>set [hulkTeam]. ToLower undefined (ID c) \<notin> set (Characters team))"
    by code_simp
  from table_shape [OF ne ok, of "''Offense''"] obtain tbl where
    tbl: "sortedCellValues (SortFrom119 undefined) undefined (playerCharactersMap scenarioA) [hulkTeam] = Inr tbl"
    and len: "length tbl = card (Player ` set scenarioA) + 1"
    and cols: "\<forall>r\<in>set tbl. length r = length [hulkTeam] + 2"
    and zeros: "\<forall>p\<in>Player ` set scenarioA.
                 (\<forall>c\<in>set scenarioA. Player c = p \<longrightarrow>
                    (\<forall>team\<in>set [hulkTeam]. ToLower undefined (ID c) \<notin> set (Characters team)))
                 \<longrightarrow> CStr p # replicate (length [hulkTeam]) (CInt 0) @ [CInt 0] \<in> set tbl"
    by blast
  from tbl tblA have eq: "tbl = tableA" by simp
  from zeros [rule_format, OF bob] nomatch
  have z: "[CStr ''bob'', CInt 0, CInt 0] \<in> set tableA"
    unfolding eq by simp
  have rows: "tableA ! 0 \<in> set tableA" "tableA ! 1 \<in> set tableA" "tableA ! 2 \<in> set tableA"
    by (simp_all add: tableA_def)
  from cols [unfolded eq] rows
  have c3: "length (tableA ! 0) = 3 \<and> length (tableA ! 1) = 3 \<and> length (tableA ! 2) = 3"
    by simp
  from ne ok tblA gen len [unfolded eq] z c3 kel show ?thesis by simp
qed

text \<open>
  C7, as the code has it. The header row is \<open>Player\<close>, then the \<open>Label\<close> of each team
  in the order of the \<open>teams\<close> slice, then \<open>Average\<close>; it is row 0 of the returned
  table. The first cell is the string \<open>Player\<close>, not \<open>Owner\<close>.
\<close>

theorem header_cells:
  "headerRow teams = CStr ''Player'' # map (\<lambda>team. CStr (Label team)) teams @ [CStr ''Average'']
   \<and> (sortOK srt uni (playerCharactersMap records) teams \<longrightarrow>
        (\<exists>tbl. sortedCellValues srt uni (playerCharactersMap records) teams = Inr tbl
           \<and> tbl \<noteq> []
           \<and> tbl ! 0
              = CStr ''Player'' # map (\<lambda>team. CStr (Label team)) teams @ [CStr ''Average'']))"
proof (intro conjI impI)
  show "headerRow teams
      = CStr ''Player'' # map (\<lambda>team. CStr (Label team)) teams @ [CStr ''Average'']"
    by (rule headerRow_eq)
next
  assume "sortOK srt uni (playerCharactersMap records) teams"
  then obtain rows where
    "sortedCellValues srt uni (playerCharactersMap records) teams = Inr (headerRow teams # rows)"
    by (rule final_table)
  then show "\<exists>tbl. sortedCellValues srt uni (playerCharactersMap records) teams = Inr tbl
           \<and> tbl \<noteq> []
           \<and> tbl ! 0
              = CStr ''Player'' # map (\<lambda>team. CStr (Label team)) teams @ [CStr ''Average'']"
    by (simp add: headerRow_eq)
qed

theorem header_cells_witness:
  "sortOK (SortFrom119 undefined) undefined (playerCharactersMap scenarioA) [hulkTeam]
   \<and> sortedCellValues (SortFrom119 undefined) undefined (playerCharactersMap scenarioA) [hulkTeam] = Inr tableA
   \<and> tableA ! 0 = [CStr ''Player'', CStr (Label hulkTeam), CStr ''Average'']"
proof -
  have ok: "sortOK (SortFrom119 undefined) undefined (playerCharactersMap scenarioA) [hulkTeam]"
    by code_simp
  have tbl: "sortedCellValues (SortFrom119 undefined) undefined (playerCharactersMap scenarioA) [hulkTeam] = Inr tableA"
    by code_simp
  from header_cells [where teams = "[hulkTeam]" and srt = "SortFrom119 undefined" and uni = undefined
      and records = scenarioA] ok tbl
  have "tableA ! 0 = [CStr ''Player'', CStr (Label hulkTeam), CStr ''Average'']"
    by simp
  with ok tbl show ?thesis by simp
qed

theorem header_owner_counterexample:
  "sortedCellValues (SortFrom119 undefined) undefined (playerCharactersMap scenarioA) [hulkTeam] = Inr tableA
   \<and> tableA ! 0 = [CStr ''Player'', CStr ''HLK'', CStr ''Average'']
   \<and> tableA ! 0 \<noteq> [CStr ''Owner'', CStr ''HLK'', CStr ''Average'']
   \<and> \<not> (headerRow [hulkTeam] ! 0 = CStr ''Owner'')"
  by code_simp

text \<open>
  C3, as the code has it. In every player row of a table with at least one team, the
  cells 1 to \<open>length teams\<close> are ints and the last cell is their sum in Go's wrapping
  64-bit arithmetic divided by the team count, truncated towards zero. This is the floor
  of the mathematical sum over the team count when the totals are non-negative and
  their sum is below \<open>2 ^ 63\<close>.
\<close>

theorem average_cell:
  assumes "teams \<noteq> []" and "sortOK srt uni (playerCharactersMap records) teams"
  shows "\<exists>tbl. sortedCellValues srt uni (playerCharactersMap records) teams = Inr tbl
           \<and> (\<forall>r\<in>set tbl. r \<noteq> headerRow teams \<longrightarrow>
                 take (length teams) (drop 1 r) = map CInt (perTeamTotals (length teams) r)
               \<and> last r = CInt (goDiv (sum_list (perTeamTotals (length teams) r))
                                  (of_nat (length teams)))
               \<and> ((\<forall>t\<in>set (perTeamTotals (length teams) r). 0 \<le> sint t)
                    \<and> sum_list (map sint (perTeamTotals (length teams) r)) < 2 ^ 63
                    \<and> length teams < 2 ^ 63
                  \<longrightarrow> spec_floor_average (length teams) r))"
proof -
  let ?pcm = "playerCharactersMap records"
  from assms obtain rows where
    tbl: "sortedCellValues srt uni ?pcm teams = Inr (headerRow teams # rows)"
    and rows: "set rows = playerRow uni teams ?pcm ` Player ` set records"
    by (rule final_table_rows)
  have "\<forall>r\<in>set (headerRow teams # rows). r \<noteq> headerRow teams \<longrightarrow>
                 take (length teams) (drop 1 r) = map CInt (perTeamTotals (length teams) r)
               \<and> last r = CInt (goDiv (sum_list (perTeamTotals (length teams) r))
                                  (of_nat (length teams)))
               \<and> ((\<forall>t\<in>set (perTeamTotals (length teams) r). 0 \<le> sint t)
                    \<and> sum_list (map sint (perTeamTotals (length teams) r)) < 2 ^ 63
                    \<and> length teams < 2 ^ 63
                  \<longrightarrow> spec_floor_average (length teams) r)"
  proof (intro ballI impI)
    fix r
    assume "r \<in> set (headerRow teams # rows)" and "r \<noteq> headerRow teams"
    then obtain p where r: "r = playerRow uni teams ?pcm p"
      using rows by auto
    show "take (length teams) (drop 1 r) = map CInt (perTeamTotals (length teams) r)
               \<and> last r = CInt (goDiv (sum_list (perTeamTotals (length teams) r))
                                  (of_nat (length teams)))
               \<and> ((\<forall>t\<in>set (perTeamTotals (length teams) r). 0 \<le> sint t)
                    \<and> sum_list (map sint (perTeamTotals (length teams) r)) < 2 ^ 63
                    \<and> length teams < 2 ^ 63
                  \<longrightarrow> spec_floor_average (length teams) r)"
      unfolding r
      using take_totals_playerRow [where uni = uni and teams = teams and pcm = ?pcm and p = p]
        last_playerRow [where uni = uni and teams = teams and pcm = ?pcm and p = p]
        playerRow_floor [OF assms(1), where uni = uni and pcm = ?pcm and p = p]
      by blast
  qed
  with tbl show ?thesis by blast
qed

theorem average_cell_witness:
  "[hulkTeam, thorTeam] \<noteq> []
   \<and> sortOK (SortFrom119 undefined) undefined (playerCharactersMap scenarioB) [hulkTeam, thorTeam]
   \<and> sortedCellValues (SortFrom119 undefined) undefined (playerCharactersMap scenarioB) [hulkTeam, thorTeam] = Inr tableB
   \<and> tableB ! 1 \<in> set tableB \<and> tableB ! 1 \<noteq> headerRow [hulkTeam, thorTeam]
   \<and> perTeamTotals 2 (tableB ! 1) = [51, 30]
   \<and> last (tableB ! 1) = CInt 40
   \<and> spec_floor_average 2 (tableB ! 1)
   \<and> (81 :: int) div 2 = 40"
proof -
  have ne: "[hulkTeam, thorTeam] \<noteq> []" by simp
  have ok: "sortOK (SortFrom119 undefined) undefined (playerCharactersMap scenarioB) [hulkTeam, thorTeam]"
    by code_simp
  have tblB: "sortedCellValues (SortFrom119 undefined) undefined (playerCharactersMap scenarioB) [hulkTeam, thorTeam]
      = Inr tableB"
    by code_simp
  have mem: "tableB ! 1 \<in> set tableB" and nh: "tableB ! 1 \<noteq> headerRow [hulkTeam, thorTeam]"
    and tots: "perTeamTotals 2 (tableB ! 1) = [51, 30]"
    by code_simp+
  have len2: "length [hulkTeam, thorTeam] = 2" by simp
  have pre: "(\<forall>t\<in>set (perTeamTotals 2 (tableB ! 1)). 0 \<le> sint t)
      \<and> sum_list (map sint (perTeamTotals 2 (tableB ! 1))) < 2 ^ 63
      \<and> (2 :: nat) < 2 ^ 63"
    by (simp only: tots) simp
  from average_cell [OF ne ok] obtain tbl where
    tbl: "sortedCellValues (SortFrom119 undefined) undefined (playerCharactersMap scenarioB) [hulkTeam, thorTeam] = Inr tbl"
    and all: "\<forall>r\<in>set tbl. r \<noteq> headerRow [hulkTeam, thorTeam] \<longrightarrow>
        take (length [hulkTeam, thorTeam]) (drop 1 r)
          = map CInt (perTeamTotals (length [hulkTeam, thorTeam]) r)
      \<and> last r = CInt (goDiv (sum_list (perTeamTotals (length [hulkTeam, thorTeam]) r))
                         (of_nat (length [hulkTeam, thorTeam])))
      \<and> ((\<forall>t\<in>set (perTeamTotals (length [hulkTeam, thorTeam]) r). 0 \<le> sint t)
           \<and> sum_list (map sint (perTeamTotals (length [hulkTeam, thorTeam]) r)) < 2 ^ 63
           \<and> length [hulkTeam, thorTeam] < 2 ^ 63
         \<longrightarrow> spec_floor_average (length [hulkTeam, thorTeam]) r)"
    by blast
  from tbl tblB have eq: "tbl = tableB" by simp
  note r = all [unfolded eq len2, rule_format, OF mem nh]
  from r pre have fl: "spec_floor_average 2 (tableB ! 1)" by blast
  have l40: "last (tableB ! 1) = CInt 40"
    by (simp add: tableB_def)
  have d: "(81 :: int) div 2 = 40" by simp
  from ne ok tblB mem nh tots l40 fl d show ?thesis by blast
qed

theorem average_floor_counterexample:
  "sortedCellValues (SortFrom119 undefined) undefined (playerCharactersMap overflowRecords) [hulkTeam, thorTeam]
     = Inr [headerRow [hulkTeam, thorTeam], overflowRow]
   \<and> perTeamTotals 2 overflowRow = [4611686018427387904, 4611686018427387905]
   \<and> 0 \<le> sint (4611686018427387904 :: goint) \<and> 0 \<le> sint (4611686018427387905 :: goint)
   \<and> trailingInt overflowRow = Some (- 4611686018427387903)
   \<and> \<not> spec_floor_average 2 overflowRow"
  by code_simp

text \<open>
  C5, as the code has it. The cell of player \<open>p\<close> for team \<open>k\<close> is \<open>teamTotalPower\<close> of
  that team over the player's records, in input order. It adds the power of a record
  once for every occurrence of its lower-cased \<open>ID\<close> in the member list; when the members
  are pairwise distinct this is the sum over exactly the records whose lower-cased \<open>ID\<close>
  is a member, and the members of every team of the four configured reports are
  pairwise distinct. Teams are summed independently of each other. The case of ASCII
  letters in an \<open>ID\<close> does not matter: two record lists that agree up to it have the
  same total for every team.
\<close>

theorem team_total_cells:
  assumes "sortOK srt uni (playerCharactersMap records) teams"
    and "p \<in> Player ` set records" and "k < length teams"
  shows "(\<exists>tbl r. sortedCellValues srt uni (playerCharactersMap records) teams = Inr tbl
           \<and> r \<in> set tbl \<and> r ! 0 = CStr p
           \<and> r ! (k + 1)
              = CInt (teamTotalPower uni (teams ! k) (filter (\<lambda>c. Player c = p) records))
           \<and> teamTotalPower uni (teams ! k) (filter (\<lambda>c. Player c = p) records)
              = sum_list (map (\<lambda>c. of_nat (count_list (Characters (teams ! k)) (ToLower uni (ID c)))
                                    * Power c)
                            (filter (\<lambda>c. Player c = p) records))
           \<and> (distinct (Characters (teams ! k)) \<longrightarrow>
                teamTotalPower uni (teams ! k) (filter (\<lambda>c. Player c = p) records)
                  = spec_matchingPower uni (teams ! k) (filter (\<lambda>c. Player c = p) records)))
         \<and> (\<forall>team\<in>set (warOffenseTeams @ warDefenseTeams @ warFlexTeams @ u7RaidTeams).
                distinct (Characters team))
         \<and> (\<forall>team cs ds. list_all2 sameUpToCase cs ds
                \<longrightarrow> teamTotalPower uni team cs = teamTotalPower uni team ds)"
proof (intro conjI)
  let ?pcm = "playerCharactersMap records"
  from assms(3) have ne: "teams \<noteq> []" by auto
  from ne assms(1) obtain rows where
    tbl: "sortedCellValues srt uni ?pcm teams = Inr (headerRow teams # rows)"
    and rows: "set rows = playerRow uni teams ?pcm ` Player ` set records"
    by (rule final_table_rows)
  let ?r = "playerRow uni teams ?pcm p"
  have mem: "?r \<in> set (headerRow teams # rows)"
    using rows assms(2) by simp
  have owner: "?r ! 0 = CStr p"
    by (rule playerRow_first)
  have cell: "?r ! (k + 1)
      = CInt (teamTotalPower uni (teams ! k) (filter (\<lambda>c. Player c = p) records))"
    using playerRow_total [OF assms(3), where uni = uni and pcm = ?pcm and p = p] by (simp add: playerCharactersMap_lookup)
  note cnt = teamTotalPower_count [where uni = uni and team = "teams ! k"
      and cs = "filter (\<lambda>c. Player c = p) records"]
  note dst = teamTotalPower_distinct [where uni = uni and team = "teams ! k"
      and cs = "filter (\<lambda>c. Player c = p) records"]
  show "\<exists>tbl r. sortedCellValues srt uni (playerCharactersMap records) teams = Inr tbl
           \<and> r \<in> set tbl \<and> r ! 0 = CStr p
           \<and> r ! (k + 1)
              = CInt (teamTotalPower uni (teams ! k) (filter (\<lambda>c. Player c = p) records))
           \<and> teamTotalPower uni (teams ! k) (filter (\<lambda>c. Player c = p) records)
              = sum_list (map (\<lambda>c. of_nat (count_list (Characters (teams ! k)) (ToLower uni (ID c)))
                                    * Power c)
                            (filter (\<lambda>c. Player c = p) records))
           \<and> (distinct (Characters (teams ! k)) \<longrightarrow>
                teamTotalPower uni (teams ! k) (filter (\<lambda>c. Player c = p) records)
                  = spec_matchingPower uni (teams ! k) (filter (\<lambda>c. Player c = p) records))"
  proof (intro exI [of _ "headerRow teams # rows"] exI [of _ ?r] conjI impI)
    show "sortedCellValues srt uni ?pcm teams = Inr (headerRow teams # rows)" by (rule tbl)
    show "?r \<in> set (headerRow teams # rows)" by (rule mem)
    show "?r ! 0 = CStr p" by (rule owner)
    show "?r ! (k + 1)
      = CInt (teamTotalPower uni (teams ! k) (filter (\<lambda>c. Player c = p) records))" by (rule cell)
    show "teamTotalPower uni (teams ! k) (filter (\<lambda>c. Player c = p) records)
      = sum_list (map (\<lambda>c. of_nat (count_list (Characters (teams ! k)) (ToLower uni (ID c)))
                            * Power c)
                    (filter (\<lambda>c. Player c = p) records))" by (rule cnt)
    assume "distinct (Characters (teams ! k))"
    then show "teamTotalPower uni (teams ! k) (filter (\<lambda>c. Player c = p) records)
      = spec_matchingPower uni (teams ! k) (filter (\<lambda>c. Player c = p) records)" by (rule dst)
  qed
  show "\<forall>team\<in>set (warOffenseTeams @ warDefenseTeams @ warFlexTeams @ u7RaidTeams).
          distinct (Characters team)"
    by (rule catalogue_members_distinct)
  show "\<forall>team cs ds. list_all2 sameUpToCase cs ds
          \<longrightarrow> teamTotalPower uni team cs = teamTotalPower uni team ds"
    using teamTotalPower_sameUpToCase by blast
qed

theorem team_total_cells_witness:
  "sortOK (SortFrom119 undefined) undefined (playerCharactersMap thorRecords) [thorTeam, asgardTeam]
   \<and> ''dana'' \<in> Player ` set thorRecords
   \<and> sortedCellValues (SortFrom119 undefined) undefined (playerCharactersMap thorRecords) [thorTeam, asgardTeam]
       = Inr tableThor
   \<and> distinct (Characters ([thorTeam, asgardTeam] ! 0))
   \<and> distinct (Characters ([thorTeam, asgardTeam] ! 1))
   \<and> (\<exists>r. r \<in> set tableThor \<and> r ! 0 = CStr ''dana''
         \<and> r ! 1 = CInt (spec_matchingPower undefined thorTeam thorRecords)
         \<and> r ! 2 = CInt (spec_matchingPower undefined asgardTeam thorRecords))
   \<and> spec_matchingPower undefined thorTeam thorRecords = 10
   \<and> spec_matchingPower undefined asgardTeam thorRecords = 10
   \<and> list_all2 sameUpToCase [\<lparr>ID = ''tHOR'', Player = ''dana'', Power = 10\<rparr>] thorRecords
   \<and> teamTotalPower undefined thorTeam [\<lparr>ID = ''tHOR'', Player = ''dana'', Power = 10\<rparr>] = 10"
proof -
  let ?teams = "[thorTeam, asgardTeam]"
  have ok: "sortOK (SortFrom119 undefined) undefined (playerCharactersMap thorRecords) ?teams"
    by code_simp
  have p: "''dana'' \<in> Player ` set thorRecords"
    by (simp add: thorRecords_def)
  have tblT: "sortedCellValues (SortFrom119 undefined) undefined (playerCharactersMap thorRecords) ?teams = Inr tableThor"
    by code_simp
  have d0: "distinct (Characters (?teams ! 0))" and d1: "distinct (Characters (?teams ! 1))"
    by code_simp+
  have own: "filter (\<lambda>c. Player c = ''dana'') thorRecords = thorRecords"
    by (simp add: thorRecords_def)
  have v: "spec_matchingPower undefined thorTeam thorRecords = 10"
    "spec_matchingPower undefined asgardTeam thorRecords = 10"
    by code_simp+
  have same: "list_all2 sameUpToCase [\<lparr>ID = ''tHOR'', Player = ''dana'', Power = 10\<rparr>] thorRecords"
    by code_simp
  have t: "teamTotalPower undefined thorTeam thorRecords = 10"
    by code_simp
  have k0: "0 < length ?teams" by simp
  note inst = team_total_cells [OF ok p k0]
  from inst obtain tbl r where
    tbl: "sortedCellValues (SortFrom119 undefined) undefined (playerCharactersMap thorRecords) ?teams = Inr tbl"
    and r: "r \<in> set tbl" "r ! 0 = CStr ''dana''"
    and c: "r ! (0 + 1) = CInt (teamTotalPower undefined (?teams ! 0) (filter (\<lambda>c. Player c = ''dana'') thorRecords))"
    and s: "distinct (Characters (?teams ! 0)) \<longrightarrow>
          teamTotalPower undefined (?teams ! 0) (filter (\<lambda>c. Player c = ''dana'') thorRecords)
          = spec_matchingPower undefined (?teams ! 0) (filter (\<lambda>c. Player c = ''dana'') thorRecords)"
    by blast
  from inst have "\<forall>team cs ds. list_all2 sameUpToCase cs ds
      \<longrightarrow> teamTotalPower undefined team cs = teamTotalPower undefined team ds"
    by blast
  with same have
    "teamTotalPower undefined thorTeam [\<lparr>ID = ''tHOR'', Player = ''dana'', Power = 10\<rparr>]
       = teamTotalPower undefined thorTeam thorRecords"
    by blast
  with t have upper:
    "teamTotalPower undefined thorTeam [\<lparr>ID = ''tHOR'', Player = ''dana'', Power = 10\<rparr>] = 10"
    by simp
  from tbl tblT have eq: "tbl = tableThor" by simp
  from r(1) eq r(2) have rr: "r = [CStr ''dana'', CInt 10, CInt 10, CInt 10]"
    by (auto simp: tableThor_def)
  have "r \<in> set tableThor \<and> r ! 0 = CStr ''dana''
         \<and> r ! 1 = CInt (spec_matchingPower undefined thorTeam thorRecords)
         \<and> r ! 2 = CInt (spec_matchingPower undefined asgardTeam thorRecords)"
    using r eq c s d0 by (simp add: own v rr)
  then have ex: "\<exists>r. r \<in> set tableThor \<and> r ! 0 = CStr ''dana''
         \<and> r ! 1 = CInt (spec_matchingPower undefined thorTeam thorRecords)
         \<and> r ! 2 = CInt (spec_matchingPower undefined asgardTeam thorRecords)"
    by blast
  from ok p tblT d0 d1 ex v same upper show ?thesis by blast
qed

theorem team_total_twice_counterexample:
  "sortedCellValues (SortFrom119 undefined) undefined (playerCharactersMap thorRecords) [twiceTeam]
     = Inr [[CStr ''Player'', CStr ''TW'', CStr ''Average''], [CStr ''dana'', CInt 20, CInt 20]]
   \<and> teamTotalPower undefined twiceTeam thorRecords = 20
   \<and> spec_matchingPower undefined twiceTeam thorRecords = 10
   \<and> teamTotalPower undefined twiceTeam thorRecords \<noteq> spec_matchingPower undefined twiceTeam thorRecords"
  by code_simp

text \<open>
  C1, as the code has it. A row whose trailing cell is not an int is \<open>Less\<close> than any
  row, in particular than one with an int trailing cell, and a row with an int trailing
  cell is not \<open>Less\<close> than it. \<open>sort.Sort\<close> puts rows that are \<open>Less\<close> first, so in every
  arrangement without a row \<open>Less\<close> than an earlier one, and in the table the function
  returns, such a row stands before every row with an int trailing cell, not after.
\<close>

theorem nonint_row_sorts_first:
  "(trailingInt (a ! i) = None \<longrightarrow> Less a i j)
   \<and> (trailingInt (a ! i) \<noteq> None \<and> trailingInt (a ! j) = None \<longrightarrow> \<not> Less a i j)
   \<and> (sortedByLess a \<longrightarrow> nonIntRowsFirst a)
   \<and> (sortOK srt uni (playerCharactersMap records) teams \<longrightarrow>
        (\<exists>tbl. sortedCellValues srt uni (playerCharactersMap records) teams = Inr tbl
           \<and> nonIntRowsFirst tbl))"
proof (intro conjI impI)
  assume "trailingInt (a ! i) = None"
  then show "Less a i j" by (simp add: Less_def)
next
  assume "trailingInt (a ! i) \<noteq> None \<and> trailingInt (a ! j) = None"
  then show "\<not> Less a i j" by (auto simp: Less_def)
next
  assume "sortedByLess a"
  then show "nonIntRowsFirst a" by (rule sortedByLess_nonIntRowsFirst)
next
  assume "sortOK srt uni (playerCharactersMap records) teams"
  then obtain rows where
    "sortedCellValues srt uni (playerCharactersMap records) teams = Inr (headerRow teams # rows)"
    and "sortedByLess (headerRow teams # rows)"
    by (rule final_table)
  then show "\<exists>tbl. sortedCellValues srt uni (playerCharactersMap records) teams = Inr tbl
           \<and> nonIntRowsFirst tbl"
    using sortedByLess_nonIntRowsFirst by blast
qed

theorem nonint_row_sorts_first_witness:
  "trailingInt (tableA ! 0) = None \<and> Less tableA 0 1
   \<and> trailingInt (tableA ! 1) \<noteq> None \<and> \<not> Less tableA 1 0
   \<and> sortedByLess tableA \<and> nonIntRowsFirst tableA
   \<and> sortOK (SortFrom119 undefined) undefined (playerCharactersMap scenarioA) [hulkTeam]
   \<and> sortedCellValues (SortFrom119 undefined) undefined (playerCharactersMap scenarioA) [hulkTeam] = Inr tableA"
proof -
  have t0: "trailingInt (tableA ! 0) = None" and t1: "trailingInt (tableA ! 1) \<noteq> None"
    and sb: "sortedByLess tableA"
    by code_simp+
  have ok: "sortOK (SortFrom119 undefined) undefined (playerCharactersMap scenarioA) [hulkTeam]"
    by code_simp
  have tblA: "sortedCellValues (SortFrom119 undefined) undefined (playerCharactersMap scenarioA) [hulkTeam] = Inr tableA"
    by code_simp
  note th = nonint_row_sorts_first [where a = tableA and i = 0 and j = 1
      and srt = "SortFrom119 undefined" and uni = undefined and records = scenarioA
      and teams = "[hulkTeam]"]
  note th' = nonint_row_sorts_first [where a = tableA and i = 1 and j = 0
      and srt = "SortFrom119 undefined" and uni = undefined and records = scenarioA
      and teams = "[hulkTeam]"]
  from th t0 have l01: "Less tableA 0 1" by blast
  from th' t0 t1 have l10: "\<not> Less tableA 1 0" by blast
  from th sb have nf: "nonIntRowsFirst tableA" by blast
  from t0 l01 t1 l10 sb nf ok tblA show ?thesis by blast
qed

theorem nonint_row_last_counterexample:
  "sortedCellValues (SortFrom119 undefined) undefined (playerCharactersMap scenarioA) [hulkTeam] = Inr tableA
   \<and> sortContract [headerRow [hulkTeam], [CStr ''alice'', CInt 100, CInt 100],
                    [CStr ''bob'', CInt 0, CInt 0]] tableA
   \<and> trailingInt (tableA ! 0) = None
   \<and> trailingInt (tableA ! 1) = Some 100
   \<and> trailingInt (tableA ! 2) = Some 0
   \<and> \<not> spec_nonIntRowsLast tableA"
  by code_simp

text \<open>
  C6, as the code has it. The player rows are handed to the sort in ascending order of
  the player. If the sort leaves the rows of each trailing value in their input order,
  rows with equal int trailing cells stand in ascending order of the player in the
  returned table; the library sort does so as long as it sorts by insertion alone, up
  to eleven players from Go 1.19 on and up to five players before. \<open>sort.Sort\<close> does
  not promise to keep ties: with twelve players from Go 1.19 on, and with seven players
  up to Go 1.18, rows with equal trailing cells come back out of order.
\<close>

theorem stable_sort_keeps_owner_order:
  assumes "sortOK srt uni (playerCharactersMap records) teams
             \<and> sortStable srt uni (playerCharactersMap records) teams
         \<or> srt = SortFrom119 large \<and> card (Player ` set records) \<le> 11
         \<or> srt = SortUpTo118 large \<and> card (Player ` set records) \<le> 5"
  shows "\<exists>cv tbl. cellValuesUnsorted uni (playerCharactersMap records) teams = Inr cv
           \<and> sorted_wrt (\<lambda>x y. ownerOf x < ownerOf y) (tl cv)
           \<and> sortedCellValues srt uni (playerCharactersMap records) teams = Inr tbl
           \<and> spec_tiesAscending tbl"
proof -
  let ?pcm = "playerCharactersMap records"
  let ?cv = "unsortedTable uni ?pcm teams"
  have both: "sortOK srt uni ?pcm teams \<and> sortStable srt uni ?pcm teams"
    using assms
  proof (elim disjE)
    assume "sortOK srt uni ?pcm teams \<and> sortStable srt uni ?pcm teams"
    then show ?thesis .
  next
    assume a: "srt = SortFrom119 large \<and> card (Player ` set records) \<le> 11"
    then have "sortOK srt uni ?pcm teams"
      by (intro library_sort_meets_contract [where large = large]) simp_all
    moreover from a have "sortStable srt uni ?pcm teams"
      by (intro library_sort_keeps_ties [where large = large]) simp
    ultimately show ?thesis ..
  next
    assume a: "srt = SortUpTo118 large \<and> card (Player ` set records) \<le> 5"
    then have "sortOK srt uni ?pcm teams"
      by (intro library_sort_meets_contract [where large = large]) simp_all
    moreover from a have "sortStable srt uni ?pcm teams"
      by (intro library_sort_keeps_ties [where large = large]) simp
    ultimately show ?thesis ..
  qed
  have dist: "distinct (map fst ?pcm)"
    by (rule playerCharactersMap_distinct)
  have cv: "cellValuesUnsorted uni ?pcm teams = Inr ?cv"
    by (rule cellValuesUnsorted_table [OF dist])
  have asc: "sorted_wrt (\<lambda>x y. ownerOf x < ownerOf y) (tl ?cv)"
    by (rule unsortedTable_tl_ascending [OF dist])
  have shape: "?cv = headerRow teams # tl ?cv"
    by (simp add: unsortedTable_def)
  from both have "mset (srt ?cv) = mset ?cv"
    by (simp add: sortOK_iff [OF dist] sortContract_def)
  then have perm: "mset (srt ?cv) = mset (headerRow teams # tl ?cv)"
    using shape by simp
  from both have "keepsTies ?cv (srt ?cv)"
    by (simp add: sortStable_def cv)
  then have keeps: "keepsTies (headerRow teams # tl ?cv) (srt ?cv)"
    using shape by simp
  have ties: "spec_tiesAscending (srt ?cv)"
    by (rule stable_ties_ascending [OF perm keeps trailingInt_headerRow asc])
  have tbl: "sortedCellValues srt uni ?pcm teams = Inr (srt ?cv)"
    by (rule sortedCellValues_eq [OF dist])
  from cv asc tbl ties show ?thesis by blast
qed

theorem stable_sort_keeps_owner_order_witness:
  "card (Player ` set smallTieRecords) \<le> 5
   \<and> sortedCellValues (SortFrom119 undefined) undefined (playerCharactersMap smallTieRecords) [hulkTeam]
       = Inr smallTieTable
   \<and> sortedCellValues (SortUpTo118 undefined) undefined (playerCharactersMap smallTieRecords) [hulkTeam]
       = Inr smallTieTable
   \<and> spec_tiesAscending smallTieTable
   \<and> trailingInt (smallTieTable ! 2) = trailingInt (smallTieTable ! 3)
   \<and> ownerOf (smallTieTable ! 2) = ''a'' \<and> ownerOf (smallTieTable ! 3) = ''b''"
proof -
  let ?pcm = "playerCharactersMap smallTieRecords"
  have small: "card (Player ` set smallTieRecords) \<le> 5"
    by (simp add: smallTieRecords_def card_insert_if)
  have new: "sortedCellValues (SortFrom119 undefined) undefined ?pcm [hulkTeam] = Inr smallTieTable"
    by code_simp
  have old: "sortedCellValues (SortUpTo118 undefined) undefined ?pcm [hulkTeam] = Inr smallTieTable"
    by code_simp
  have rows: "trailingInt (smallTieTable ! 2) = trailingInt (smallTieTable ! 3)"
    "ownerOf (smallTieTable ! 2) = ''a''" "ownerOf (smallTieTable ! 3) = ''b''"
    by code_simp+
  have "SortUpTo118 undefined = SortUpTo118 (undefined :: row list \<Rightarrow> row list)
      \<and> card (Player ` set smallTieRecords) \<le> 5"
    using small by simp
  from stable_sort_keeps_owner_order [OF disjI2 [OF disjI2 [OF this]], of undefined "[hulkTeam]"]
  obtain tbl where
    "sortedCellValues (SortUpTo118 undefined) undefined ?pcm [hulkTeam] = Inr tbl"
    and "spec_tiesAscending tbl"
    by blast
  with old have "spec_tiesAscending smallTieTable" by simp
  with small new old rows show ?thesis by blast
qed

theorem ties_order_counterexample:
  "card (Player ` set twelveRecords) = 12
   \<and> sortedCellValues (SortFrom119 (pdqsort undefined)) undefined
        (playerCharactersMap twelveRecords) [hulkTeam] = Inr twelveTable
   \<and> sortOK (SortFrom119 (pdqsort undefined)) undefined
        (playerCharactersMap twelveRecords) [hulkTeam]
   \<and> trailingInt (twelveTable ! 2) = Some 1 \<and> trailingInt (twelveTable ! 3) = Some 1
   \<and> ownerOf (twelveTable ! 2) = ''f'' \<and> ownerOf (twelveTable ! 3) = ''c''
   \<and> \<not> spec_tiesAscending twelveTable
   \<and> card (Player ` set tieRecords) = 7
   \<and> sortedCellValues (SortUpTo118 undefined) undefined (playerCharactersMap tieRecords)
        [hulkTeam] = Inr tieTable
   \<and> sortOK (SortUpTo118 undefined) undefined (playerCharactersMap tieRecords) [hulkTeam]
   \<and> trailingInt (tieTable ! 2) = Some 5 \<and> trailingInt (tieTable ! 3) = Some 5
   \<and> ownerOf (tieTable ! 2) = ''b'' \<and> ownerOf (tieTable ! 3) = ''a''
   \<and> \<not> spec_tiesAscending tieTable"
  by code_simp

text \<open>
  C8. For a column count \<open>c\<close> from 1 to 26 the range address is the sheet name, \<open>!A1:\<close>,
  the \<open>c\<close>-th capital letter (byte \<open>64 + c\<close>) and the decimal row count; \<open>Offense\<close> with 7
  columns and 5 rows gives \<open>Offense!A1:G5\<close>. The range the function returns is this
  address for the length of row 0 and the number of rows of the returned table.
\<close>

theorem range_address:
  "(1 \<le> c \<and> c \<le> 26 \<longrightarrow>
      writeRangeOf sheetName c r
        = Inr (sheetName @ ''!A1:'' @ [char_of (64 + c)] @ Itoa (int r)))
   \<and> writeRangeOf ''Offense'' 7 5 = Inr ''Offense!A1:G5''
   \<and> (\<forall>wr tbl. generateAverageTeamPowerByPlayerReport srt uni pcm teams sheetName = Inr (wr, tbl)
         \<longrightarrow> writeRangeOf sheetName (length (tbl ! 0)) (length tbl) = Inr wr)"
proof (intro conjI impI allI)
  assume c: "1 \<le> c \<and> c \<le> 26"
  then have "writeRangeOf sheetName c r
      = Inr (sheetName @ ''!A1:'' @ sheetCellIndexToLetter ! (c - 1) @ Itoa (int r))"
    by (intro writeRangeOf_ok) simp_all
  moreover from c have "sheetCellIndexToLetter ! (c - 1) = [char_of (64 + c)]"
    by (intro letter_of_column) simp_all
  ultimately show "writeRangeOf sheetName c r
      = Inr (sheetName @ ''!A1:'' @ [char_of (64 + c)] @ Itoa (int r))"
    by (simp only:)
next
  show "writeRangeOf ''Offense'' 7 5 = Inr ''Offense!A1:G5''"
    by code_simp
next
  fix wr tbl
  assume "generateAverageTeamPowerByPlayerReport srt uni pcm teams sheetName = Inr (wr, tbl)"
  then show "writeRangeOf sheetName (length (tbl ! 0)) (length tbl) = Inr wr"
    by (auto simp: generateAverageTeamPowerByPlayerReport_def split: sum.splits if_splits)
qed

theorem range_address_witness:
  "(1 :: nat) \<le> 13 \<and> (13 :: nat) \<le> 26
   \<and> writeRangeOf ''Defense'' 13 120 = Inr ''Defense!A1:M120''
   \<and> generateAverageTeamPowerByPlayerReport (SortFrom119 undefined) undefined (playerCharactersMap scenarioA)
        [hulkTeam] ''Offense'' = Inr (''Offense!A1:C3'', tableA)
   \<and> writeRangeOf ''Offense'' (length (tableA ! 0)) (length tableA) = Inr ''Offense!A1:C3''"
proof -
  have c: "(1 :: nat) \<le> 13 \<and> (13 :: nat) \<le> 26" by simp
  have v: "''Defense'' @ ''!A1:'' @ [char_of (64 + (13 :: nat))] @ Itoa (int 120) = ''Defense!A1:M120''"
    by code_simp
  have gen: "generateAverageTeamPowerByPlayerReport (SortFrom119 undefined) undefined (playerCharactersMap scenarioA)
        [hulkTeam] ''Offense'' = Inr (''Offense!A1:C3'', tableA)"
    by code_simp
  note th = range_address [where c = 13 and sheetName = "''Defense''" and r = 120
      and srt = "SortFrom119 undefined" and uni = undefined
      and pcm = "playerCharactersMap scenarioA" and teams = "[hulkTeam]"]
  note th' = range_address [where c = 13 and sheetName = "''Offense''" and r = 120
      and srt = "SortFrom119 undefined" and uni = undefined
      and pcm = "playerCharactersMap scenarioA" and teams = "[hulkTeam]"]
  from th c have "writeRangeOf ''Defense'' 13 120
      = Inr (''Defense'' @ ''!A1:'' @ [char_of (64 + (13 :: nat))] @ Itoa (int 120))"
    by blast
  with v have w: "writeRangeOf ''Defense'' 13 120 = Inr ''Defense!A1:M120''"
    by simp
  from th' gen have g: "writeRangeOf ''Offense'' (length (tableA ! 0)) (length tableA)
      = Inr ''Offense!A1:C3''"
    by blast
  from c w gen g show ?thesis by blast
qed

text \<open>
  C9. The four report functions pass 11, 8, 4 and 4 teams, that is 13, 10, 6 and 6
  columns, the slice of letters has 26 entries, and each of the four calls returns a
  range and a table (the index \<open>len(cellValues[0]) - 1\<close> is 12, 9, 5 and 5) for every
  record list.
\<close>

theorem configured_reports_in_range:
  "length warOffenseTeams + 2 = 13 \<and> length warDefenseTeams + 2 = 10
   \<and> length warFlexTeams + 2 = 6 \<and> length u7RaidTeams + 2 = 6
   \<and> length sheetCellIndexToLetter = 26
   \<and> (sortOK srt uni (playerCharactersMap records) warOffenseTeams \<longrightarrow>
        (\<exists>wr tbl. generateTopWarOffenseTeamsByPlayerReport srt uni (playerCharactersMap records)
                    = Inr (wr, tbl)
                \<and> length (tbl ! 0) - 1 = 12))
   \<and> (sortOK srt uni (playerCharactersMap records) warDefenseTeams \<longrightarrow>
        (\<exists>wr tbl. generateTopWarDefenseTeamsByPlayerReport srt uni (playerCharactersMap records)
                    = Inr (wr, tbl)
                \<and> length (tbl ! 0) - 1 = 9))
   \<and> (sortOK srt uni (playerCharactersMap records) warFlexTeams \<longrightarrow>
        (\<exists>wr tbl. generateTopWarFlexTeamsByPlayerReport srt uni (playerCharactersMap records)
                    = Inr (wr, tbl)
                \<and> length (tbl ! 0) - 1 = 5))
   \<and> (sortOK srt uni (playerCharactersMap records) u7RaidTeams \<longrightarrow>
        (\<exists>wr tbl. generateTopU7RaidTeamsByPlayerReport srt uni (playerCharactersMap records)
                    = Inr (wr, tbl)
                \<and> length (tbl ! 0) - 1 = 5))"
proof (intro conjI impI)
  show "length sheetCellIndexToLetter = 26"
    by (simp add: sheetCellIndexToLetter_def)
next
  assume "sortOK srt uni (playerCharactersMap records) warOffenseTeams"
  from report_returns [OF this, of "''Offense''"]
  show "\<exists>wr tbl. generateTopWarOffenseTeamsByPlayerReport srt uni (playerCharactersMap records)
                    = Inr (wr, tbl) \<and> length (tbl ! 0) - 1 = 12"
    by (auto simp: generateTopWarOffenseTeamsByPlayerReport_def configured_lengths)
next
  assume "sortOK srt uni (playerCharactersMap records) warDefenseTeams"
  from report_returns [OF this, of "''Defense''"]
  show "\<exists>wr tbl. generateTopWarDefenseTeamsByPlayerReport srt uni (playerCharactersMap records)
                    = Inr (wr, tbl) \<and> length (tbl ! 0) - 1 = 9"
    by (auto simp: generateTopWarDefenseTeamsByPlayerReport_def configured_lengths)
next
  assume "sortOK srt uni (playerCharactersMap records) warFlexTeams"
  from report_returns [OF this, of "''Flex''"]
  show "\<exists>wr tbl. generateTopWarFlexTeamsByPlayerReport srt uni (playerCharactersMap records)
                    = Inr (wr, tbl) \<and> length (tbl ! 0) - 1 = 5"
    by (auto simp: generateTopWarFlexTeamsByPlayerReport_def configured_lengths)
next
  assume "sortOK srt uni (playerCharactersMap records) u7RaidTeams"
  from report_returns [OF this, of "''U7''"]
  show "\<exists>wr tbl. generateTopU7RaidTeamsByPlayerReport srt uni (playerCharactersMap records)
                    = Inr (wr, tbl) \<and> length (tbl ! 0) - 1 = 5"
    by (auto simp: generateTopU7RaidTeamsByPlayerReport_def configured_lengths)
qed (simp_all add: configured_lengths)

theorem configured_reports_in_range_witness:
  "sortOK (SortFrom119 undefined) undefined (playerCharactersMap asgardRecords) warOffenseTeams
   \<and> sortOK (SortFrom119 undefined) undefined (playerCharactersMap asgardRecords) warDefenseTeams
   \<and> sortOK (SortFrom119 undefined) undefined (playerCharactersMap asgardRecords) warFlexTeams
   \<and> sortOK (SortFrom119 undefined) undefined (playerCharactersMap asgardRecords) u7RaidTeams
   \<and> (\<exists>wr tbl. generateTopWarOffenseTeamsByPlayerReport (SortFrom119 undefined) undefined
                   (playerCharactersMap asgardRecords) = Inr (wr, tbl)
               \<and> length (tbl ! 0) - 1 = 12)
   \<and> (\<exists>wr tbl. generateTopWarDefenseTeamsByPlayerReport (SortFrom119 undefined) undefined
                   (playerCharactersMap asgardRecords) = Inr (wr, tbl)
               \<and> length (tbl ! 0) - 1 = 9)
   \<and> (\<exists>wr tbl. generateTopWarFlexTeamsByPlayerReport (SortFrom119 undefined) undefined
                   (playerCharactersMap asgardRecords) = Inr (wr, tbl)
               \<and> length (tbl ! 0) - 1 = 5)
   \<and> (\<exists>wr tbl. generateTopU7RaidTeamsByPlayerReport (SortFrom119 undefined) undefined
                   (playerCharactersMap asgardRecords) = Inr (wr, tbl)
               \<and> length (tbl ! 0) - 1 = 5)"
proof -
  let ?pcm = "playerCharactersMap asgardRecords"
  have ok: "sortOK (SortFrom119 undefined) undefined ?pcm warOffenseTeams" "sortOK (SortFrom119 undefined) undefined ?pcm warDefenseTeams"
    "sortOK (SortFrom119 undefined) undefined ?pcm warFlexTeams" "sortOK (SortFrom119 undefined) undefined ?pcm u7RaidTeams"
    by code_simp+
  note th = configured_reports_in_range [where srt = "SortFrom119 undefined" and uni = undefined
      and records = asgardRecords]
  from th ok show ?thesis by blast
qed

end
